theory Spec2Isabelle
  imports Main "HOL-Library.Multiset" "HOL-Library.AList" "HOL-Library.Code_Target_Numeral"
begin

section \<open>Data model of the node server (server.js)\<close>

text \<open>
  A JSON payload value, as the handler holds it after \<open>JSON.parse\<close>. \<open>JNum n\<close> is the number
  (a double) whose value is the integer \<open>n\<close>; a number with a fractional value lies outside
  the model. Arrays and nested objects are not payload values here.
\<close>

datatype jsval = JUndefined | JNull | JBool bool | JNum int | JStr string

text \<open>
  One row of the table: the identity column, the parent column and the remaining columns by
  name, which the model carries along and never reads. Identity and parent hold integers
  (both columns are declared \<open>INTEGER\<close> in the bootstrap schema). A null parent is \<open>None\<close>.
\<close>

record row =
  rid :: int
  parent_id :: "int option"
  cols :: "(string \<times> jsval) list"

text \<open>
  The store: whether the parent column carries the foreign key of the bootstrap schema
  (\<open>REFERENCES ... ON DELETE SET NULL\<close>, with \<open>PRAGMA foreign_keys = ON\<close>), the limit on the
  number of \<open>?\<close> parameters of one statement that is compiled into the engine (999 or 32766
  in the versions of SQLite that the sqlite3 package bundles; the statements with one or two
  parameters never reach it), and the table with its rows in storage order, \<open>None\<close> when the
  table does not exist (\<open>AUTO_BOOTSTRAP\<close> off and no table made).
\<close>

record db =
  fk_enforced :: bool
  max_variables :: nat
  table :: "row list option"

definition rows :: "db \<Rightarrow> row list" where
  "rows d = (case table d of None \<Rightarrow> [] | Some t \<Rightarrow> t)"

text \<open>The environment constants \<open>ID_FIELD\<close> and \<open>PARENT_FIELD\<close> of server.js.\<close>

record config =
  ID_FIELD :: string
  PARENT_FIELD :: string

definition default_config :: config where
  "default_config = \<lparr>ID_FIELD = ''id'', PARENT_FIELD = ''parent_id''\<rparr>"

subsection \<open>Numbers of the language\<close>

text \<open>
  A number of the language is a double. \<open>to_double n\<close> is the integer value of the double
  nearest to the integer \<open>n\<close>: \<open>n\<close> itself up to 53 bits, and beyond that \<open>n\<close> rounded to 53
  significant bits, a tie going to the even neighbour. Every id passes through it, on its way
  in (\<open>Number(idMatch[1])\<close>) and on its way out of the database (\<open>r.id\<close>).
\<close>

function bitlen :: "nat \<Rightarrow> nat" where
  "bitlen n = (if n = 0 then 0 else Suc (bitlen (n div 2)))"
  by pat_completeness auto
termination
  by (relation "measure id") auto

declare bitlen.simps [simp del]

definition round_to_53 :: "nat \<Rightarrow> nat" where
  "round_to_53 m =
     (if m < 2 ^ 53 then m
      else
        let k = bitlen m - 53; q = m div 2 ^ k; r = m mod 2 ^ k; half = 2 ^ (k - 1)
        in (if half < r \<or> (r = half \<and> odd q) then q + 1 else q) * 2 ^ k)"

definition to_double :: "int \<Rightarrow> int" where
  "to_double n = sgn n * int (round_to_53 (nat \<bar>n\<bar>))"

definition MAX_SAFE_INTEGER :: nat where
  "MAX_SAFE_INTEGER = 9007199254740991"

subsection \<open>normalizeIncomingValue\<close>

text \<open>
  \<open>String.prototype.toLowerCase\<close> on the ASCII letters, and \<open>String.prototype.includes\<close>.
\<close>

definition lower_char :: "char \<Rightarrow> char" where
  "lower_char c =
     (case map_of (zip ''ABCDEFGHIJKLMNOPQRSTUVWXYZ'' ''abcdefghijklmnopqrstuvwxyz'') c of
        Some d \<Rightarrow> d
      | None \<Rightarrow> c)"

definition toLowerCase :: "string \<Rightarrow> string" where
  "toLowerCase s = map lower_char s"

fun includes_str :: "string \<Rightarrow> string \<Rightarrow> bool" where
  "includes_str [] sub = (sub = [])"
| "includes_str (c # cs) sub = (take (length sub) (c # cs) = sub \<or> includes_str cs sub)"

text \<open>
  \<open>Number(value)\<close>; \<open>None\<close> is NaN. The conversion of a string (the StringToNumber grammar
  of the language) is a parameter \<open>sn\<close>.
\<close>

fun Number :: "(string \<Rightarrow> int option) \<Rightarrow> jsval \<Rightarrow> int option" where
  "Number sn JUndefined = None"
| "Number sn JNull = Some 0"
| "Number sn (JBool b) = Some (if b then 1 else 0)"
| "Number sn (JNum n) = Some n"
| "Number sn (JStr s) = sn s"

definition normalizeIncomingValue :: "(string \<Rightarrow> int option) \<Rightarrow> config \<Rightarrow> string \<Rightarrow> jsval \<Rightarrow> jsval" where
  "normalizeIncomingValue sn cfg key v =
     (if v = JStr [] \<or> v = JUndefined then JNull
      else if key = PARENT_FIELD cfg \<or> includes_str (toLowerCase key) ''id'' then
        (case Number sn v of None \<Rightarrow> JNull | Some numeric \<Rightarrow> JNum numeric)
      else v)"

text \<open>
  The claim's wording of "contains the substring id, case-insensitively": somewhere in the
  name an \<open>i\<close> or \<open>I\<close> is followed at once by a \<open>d\<close> or \<open>D\<close>. And the value stored for a field,
  in the words of the claim as amended: \<open>null\<close> for an empty string or \<open>undefined\<close>; for the
  parent field and for a field whose name contains "id", the number that the value
  stands for (0 for \<open>null\<close>, 1 and 0 for the booleans, the number read from a string) and
  \<open>null\<close> where a string stands for none; any other value as it came.
\<close>

definition contains_id_ci :: "string \<Rightarrow> bool" where
  "contains_id_ci key =
     (\<exists>pre c d post. key = pre @ c # d # post \<and> (c = CHR ''i'' \<or> c = CHR ''I'') \<and>
        (d = CHR ''d'' \<or> d = CHR ''D''))"

definition stored_value :: "(string \<Rightarrow> int option) \<Rightarrow> config \<Rightarrow> string \<Rightarrow> jsval \<Rightarrow> jsval" where
  "stored_value sn cfg key v =
     (if v = JStr [] \<or> v = JUndefined then JNull
      else if key = PARENT_FIELD cfg \<or> contains_id_ci key then
        (case v of
           JUndefined \<Rightarrow> JNull
         | JNull \<Rightarrow> JNum 0
         | JBool b \<Rightarrow> JNum (if b then 1 else 0)
         | JNum n \<Rightarrow> JNum n
         | JStr s \<Rightarrow> (case sn s of None \<Rightarrow> JNull | Some n \<Rightarrow> JNum n))
      else v)"

subsection \<open>The route\<close>

text \<open>
  \<open>url.pathname.match(/\/api\/nodes\/(\d+)/)\<close>: the leftmost place of the path where
  \<open>/api/nodes/\<close> is followed by a digit, and the digits that follow it there.
\<close>

definition is_digit :: "char \<Rightarrow> bool" where
  "is_digit c = (c \<in> set ''0123456789'')"

fun match_id :: "string \<Rightarrow> string option" where
  "match_id [] = None"
| "match_id (c # cs) =
     (if take 11 (c # cs) = ''/api/nodes/'' \<and> takeWhile is_digit (drop 11 (c # cs)) \<noteq> []
      then Some (takeWhile is_digit (drop 11 (c # cs)))
      else match_id cs)"

text \<open>
  \<open>Number(idMatch[1])\<close> on a string of digits: its decimal value as a double, which is
  \<open>Infinity\<close> from \<open>2^1024 - 2^970\<close> on; \<open>Number.isInteger\<close> refuses \<open>Infinity\<close> (\<open>None\<close>).
\<close>

definition digit_value :: "char \<Rightarrow> nat" where
  "digit_value c =
     (case map_of [(CHR ''0'', 0), (CHR ''1'', 1), (CHR ''2'', 2), (CHR ''3'', 3), (CHR ''4'', 4),
                   (CHR ''5'', 5), (CHR ''6'', 6), (CHR ''7'', 7), (CHR ''8'', 8), (CHR ''9'', 9)] c of
        Some v \<Rightarrow> v
      | None \<Rightarrow> 0)"

definition decimal_value :: "string \<Rightarrow> nat" where
  "decimal_value ds = foldl (\<lambda>acc c. 10 * acc + digit_value c) 0 ds"

definition integer_id :: "string \<Rightarrow> int option" where
  "integer_id ds =
     (if 2 ^ 1024 - 2 ^ 970 \<le> decimal_value ds then None
      else Some (to_double (int (decimal_value ds))))"

text \<open>
  The client (public/js/api/api.js) writes the path of a node as \<open>`${API_ENDPOINT}/${id}`\<close>;
  a non-negative integer below \<open>10^21\<close> is written there as its decimal digits.
\<close>

definition digit_char :: "nat \<Rightarrow> char" where
  "digit_char n = ''0123456789'' ! n"

function digits_of :: "nat \<Rightarrow> string" where
  "digits_of n = (if n < 10 then [digit_char n] else digits_of (n div 10) @ [digit_char (n mod 10)])"
  by pat_completeness auto
termination
  by (relation "measure id") auto

declare digits_of.simps [simp del]

definition node_path :: "nat \<Rightarrow> string" where
  "node_path n = ''/api/nodes/'' @ digits_of n"

subsection \<open>The request handlers of handleApi\<close>

text \<open>
  What a handler sends: \<open>sendJson\<close> with a status and rows, \<open>sendError\<close> with a status (the
  message is left out), or \<open>sendNoContent\<close> (status 204).
\<close>

datatype response = Json nat "row list" | Error nat | NoContent


text \<open>
  The request body after \<open>sanitizePayload\<close>: the object's own keys, each once, with their
  values, in key order. \<open>payload[col]\<close> of an absent key is \<open>undefined\<close>.
\<close>

type_synonym payload = "(string \<times> jsval) list"

definition payload_get :: "payload \<Rightarrow> string \<Rightarrow> jsval" where
  "payload_get p col = (case map_of p col of Some v \<Rightarrow> v | None \<Rightarrow> JUndefined)"

definition payload_columns :: "config \<Rightarrow> payload \<Rightarrow> string list" where
  "payload_columns cfg p = filter (\<lambda>key. key \<noteq> ID_FIELD cfg) (map fst p)"

text \<open>
  \<open>columns.map(col => normalizeIncomingValue(col, payload[col]))\<close>, the line shared by the
  POST and the PUT branch.
\<close>

definition normalized_values :: "(string \<Rightarrow> int option) \<Rightarrow> config \<Rightarrow> payload \<Rightarrow> jsval list" where
  "normalized_values sn cfg p =
     map (\<lambda>col. normalizeIncomingValue sn cfg col (payload_get p col)) (payload_columns cfg p)"

text \<open>
  A row as the handler reads it from the database and sends it: its numbers are doubles.
  \<open>db.get(SELECT * ... WHERE id = ?)\<close> gives the first row with the id, if any.
\<close>

definition js_row :: "row \<Rightarrow> row" where
  "js_row r = r\<lparr>rid := to_double (rid r), parent_id := map_option to_double (parent_id r)\<rparr>"

definition fetch_row :: "db \<Rightarrow> int \<Rightarrow> row list" where
  "fetch_row d i = (case find (\<lambda>r. rid r = i) (rows d) of Some r \<Rightarrow> [js_row r] | None \<Rightarrow> [])"

text \<open>\<open>GET /api/nodes\<close>: \<open>SELECT * ... ORDER BY id\<close>; the query fails when there is no table.\<close>

definition listAll :: "db \<Rightarrow> row list" where
  "listAll d = sort_key rid (rows d)"

definition handleGet :: "db \<Rightarrow> response" where
  "handleGet d = (if table d = None then Error 500 else Json 200 (map js_row (listAll d)))"

text \<open>
  The SQL engine on the statements whose effect depends on what the model does not hold (the
  names, declared types and defaults of the remaining columns): the INSERT of the POST
  branch, and every UPDATE but that of the parent column alone. Given the column names and
  the bound values, the engine fails (\<open>None\<close>) or returns \<open>lastID\<close>, respectively the number
  of rows changed, and the new store.
\<close>

record engine =
  run_insert :: "string list \<Rightarrow> jsval list \<Rightarrow> db \<Rightarrow> (int \<times> db) option"
  run_update :: "string list \<Rightarrow> jsval list \<Rightarrow> int \<Rightarrow> db \<Rightarrow> (nat \<times> db) option"

text \<open>
  \<open>UPDATE ... SET parent = ? WHERE id = ?\<close> with a normalised value, which is \<open>null\<close> or a
  number. The statement fails (\<open>None\<close>) when there is no table, or when the foreign key is
  enforced and a changed row would point at a parent that is no row. Otherwise it returns
  the number of rows with the id and the new store.
\<close>

definition as_parent :: "jsval \<Rightarrow> int option" where
  "as_parent v = (case v of JNum n \<Rightarrow> Some n | _ \<Rightarrow> None)"

definition parent_present :: "row list \<Rightarrow> row \<Rightarrow> bool" where
  "parent_present t r =
     (case parent_id r of None \<Rightarrow> True | Some p \<Rightarrow> list_ex (\<lambda>q. rid q = p) t)"

definition sql_update_parent :: "db \<Rightarrow> jsval \<Rightarrow> int \<Rightarrow> (nat \<times> db) option" where
  "sql_update_parent d v targetId =
     (case table d of
        None \<Rightarrow> None
      | Some t \<Rightarrow>
          let t' = map (\<lambda>r. if rid r = targetId then r\<lparr>parent_id := as_parent v\<rparr> else r) t
          in if fk_enforced d \<and> list_ex (\<lambda>r. rid r = targetId \<and> \<not> parent_present t' r) t'
             then None
             else Some (length (filter (\<lambda>r. rid r = targetId) t), d\<lparr>table := Some t'\<rparr>))"

definition run_statement :: "engine \<Rightarrow> config \<Rightarrow> db \<Rightarrow> int \<Rightarrow> string list \<Rightarrow> jsval list \<Rightarrow> (nat \<times> db) option" where
  "run_statement eng cfg d targetId cs vs =
     (case (cs, vs) of
        ([c], [v]) \<Rightarrow>
          if c = PARENT_FIELD cfg then sql_update_parent d v targetId
          else run_update eng cs vs targetId d
      | _ \<Rightarrow> run_update eng cs vs targetId d)"

text \<open>
  \<open>POST /api/nodes\<close> and \<open>PUT /api/nodes/{id}\<close>, each in two parts: up to the bound values,
  and from \<open>db.run\<close> on. The row sent back is read from the table the statement has just
  written, so the error branch of that read is not reached.
\<close>

definition insert_with :: "engine \<Rightarrow> db \<Rightarrow> string list \<Rightarrow> jsval list \<Rightarrow> response \<times> db" where
  "insert_with eng d cs vs =
     (case run_insert eng cs vs d of
        None \<Rightarrow> (Error 500, d)
      | Some (lastID, d') \<Rightarrow> (Json 201 (fetch_row d' (to_double lastID)), d'))"

definition handlePost :: "(string \<Rightarrow> int option) \<Rightarrow> engine \<Rightarrow> config \<Rightarrow> db \<Rightarrow> payload \<Rightarrow> response \<times> db" where
  "handlePost sn eng cfg d p =
     (let cs = payload_columns cfg p in
      if cs = [] then (Error 400, d)
      else insert_with eng d cs (normalized_values sn cfg p))"

definition update_with :: "engine \<Rightarrow> config \<Rightarrow> db \<Rightarrow> int \<Rightarrow> string list \<Rightarrow> jsval list \<Rightarrow> response \<times> db" where
  "update_with eng cfg d targetId cs vs =
     (case run_statement eng cfg d targetId cs vs of
        None \<Rightarrow> (Error 500, d)
      | Some (changes, d') \<Rightarrow>
          if changes = 0 then (Error 404, d')
          else (Json 200 (fetch_row d' targetId), d'))"

definition handlePut :: "(string \<Rightarrow> int option) \<Rightarrow> engine \<Rightarrow> config \<Rightarrow> db \<Rightarrow> int \<Rightarrow> payload \<Rightarrow> response \<times> db" where
  "handlePut sn eng cfg d targetId p =
     (let cs = payload_columns cfg p in
      if cs = [] then (Error 400, d)
      else update_with eng cfg d targetId cs (normalized_values sn cfg p))"

text \<open>
  The recursive common table expression of the DELETE branch,
  \<open>WITH RECURSIVE subtree(id) AS (SELECT id ... WHERE id = ? UNION ALL
  SELECT t.id FROM t JOIN subtree s ON t.parent_id = s.id)\<close>,
  evaluated as the engine does: the rows of the initial select enter a queue; while the queue
  is not empty, one row leaves it for the result and the recursive select, run on that row
  alone, appends its rows to the queue. \<open>UNION ALL\<close> keeps every row, seen before or not.
  A run that never ends is \<open>None\<close>.
\<close>

definition child_ids :: "row list \<Rightarrow> int \<Rightarrow> int list" where
  "child_ids t s = map rid (filter (\<lambda>r. parent_id r = Some s) t)"

partial_function (option) subtree :: "row list \<Rightarrow> int list \<Rightarrow> int list \<Rightarrow> int list option" where
  "subtree t queue out =
     (case queue of
        [] \<Rightarrow> Some out
      | s # rest \<Rightarrow> subtree t (rest @ child_ids t s) (out @ [s]))"

text \<open>
  \<open>DELETE FROM ... WHERE id IN (...)\<close> removes the rows whose id is among the bound numbers;
  with the foreign key enforced, a surviving row whose parent is a removed row is left with a
  null parent (\<open>ON DELETE SET NULL\<close>).
\<close>

definition sql_delete :: "db \<Rightarrow> int list \<Rightarrow> db" where
  "sql_delete d ids =
     d\<lparr>table := Some
        (map (\<lambda>r. if fk_enforced d \<and>
                     (case parent_id r of
                        None \<Rightarrow> False
                      | Some p \<Rightarrow> p \<in> set ids \<and> list_ex (\<lambda>q. rid q = p) (rows d))
                  then r\<lparr>parent_id := None\<rparr> else r)
          (filter (\<lambda>r. rid r \<notin> set ids) (rows d)))\<rparr>"

text \<open>
  \<open>DELETE /api/nodes/{id}\<close>, from the parsed id on. The query fails when there is no table
  (500). Its ids reach the handler as doubles (\<open>rows.map(r => r.id)\<close>); none is 404. The DELETE
  statement has one parameter for each of them and fails when they are more than the engine
  allows (500). \<open>None\<close> when the query never returns.
\<close>

definition handleDelete :: "db \<Rightarrow> int \<Rightarrow> (response \<times> db) option" where
  "handleDelete d targetId =
     (case table d of
        None \<Rightarrow> Some (Error 500, d)
      | Some t \<Rightarrow>
          (case subtree t (map rid (filter (\<lambda>r. rid r = targetId) t)) [] of
             None \<Rightarrow> None
           | Some found \<Rightarrow>
               let ids = map to_double found in
               Some (if ids = [] then (Error 404, d)
                     else if max_variables d < length ids then (Error 500, d)
                     else (NoContent, sql_delete d ids))))"

text \<open>
  \<open>handleApi\<close>, called for every path that starts with \<open>/api/nodes\<close>. The body of a request
  is \<open>None\<close> when it is no JSON (400); a body that is no object has no keys.
\<close>

datatype http_method = GET | POST | PUT | DELETE | OTHER

record request =
  http_method :: http_method
  pathname :: string
  body :: "payload option"

definition handleApi :: "(string \<Rightarrow> int option) \<Rightarrow> engine \<Rightarrow> config \<Rightarrow> db \<Rightarrow> request \<Rightarrow> (response \<times> db) option" where
  "handleApi sn eng cfg d req =
     (if http_method req = GET \<and> pathname req = ''/api/nodes'' then Some (handleGet d, d)
      else if http_method req = POST \<and> pathname req = ''/api/nodes'' then
        (case body req of
           None \<Rightarrow> Some (Error 400, d)
         | Some p \<Rightarrow> Some (handlePost sn eng cfg d p))
      else
        (case match_id (pathname req) of
           None \<Rightarrow> Some (Error 404, d)
         | Some digits \<Rightarrow>
             (case integer_id digits of
                None \<Rightarrow> Some (Error 400, d)
              | Some targetId \<Rightarrow>
                  if http_method req = PUT then
                    (case body req of
                       None \<Rightarrow> Some (Error 400, d)
                     | Some p \<Rightarrow> Some (handlePut sn eng cfg d targetId p))
                  else if http_method req = DELETE then handleDelete d targetId
                  else Some (Error 405, d))))"

section \<open>The tree helpers of the client (public/js/utils/tree.js)\<close>

text \<open>
  The client holds the rows it fetched as an array of objects with \<open>id\<close> and \<open>parent_id\<close>.
  \<open>getAncestorIds\<close> walks the parent pointers through the inner function \<open>findParent\<close>,
  which records every id it has visited and stops on a visited id, on an id that is no row and
  on a falsy parent (\<open>null\<close> or \<open>0\<close>).
\<close>

function findParent :: "row list \<Rightarrow> int set \<Rightarrow> int list \<Rightarrow> int \<Rightarrow> int list" where
  "findParent data visited ancestors i =
     (if i \<in> visited then ancestors
      else
        (case find (\<lambda>n. rid n = i) data of
           None \<Rightarrow> ancestors
         | Some node \<Rightarrow>
             (case parent_id node of
                None \<Rightarrow> ancestors
              | Some p \<Rightarrow>
                  if p = 0 then ancestors
                  else findParent data (insert i visited) (ancestors @ [p]) p)))"
  by pat_completeness auto
termination
proof (relation "measure (\<lambda>(data, visited, ancestors, i). card (rid ` set data - visited))")
  show "wf (measure (\<lambda>(data, visited, ancestors, i). card (rid ` set data - visited)))"
    by simp
next
  fix data :: "row list" and visited :: "int set" and ancestors :: "int list" and i node p
  assume nv: "i \<notin> visited" and f: "find (\<lambda>n. rid n = i) data = Some node"
  from f have "i \<in> rid ` set data"
    by (auto simp: find_Some_iff)
  with nv have "rid ` set data - insert i visited \<subset> rid ` set data - visited"
    by auto
  then have "card (rid ` set data - insert i visited) < card (rid ` set data - visited)"
    by (intro psubset_card_mono) auto
  then show "((data, insert i visited, ancestors @ [p], p), (data, visited, ancestors, i))
      \<in> measure (\<lambda>(data, visited, ancestors, i). card (rid ` set data - visited))"
    by simp
qed

definition getAncestorIds :: "row list \<Rightarrow> int \<Rightarrow> int list" where
  "getAncestorIds data nodeId = findParent data {} [] nodeId"

text \<open>
  \<open>getDescendantIds\<close> calls itself for every child, with no record of the ids it has seen.
  \<open>each_child\<close> is its \<open>for (const child of children)\<close> loop, given the recursive call; a
  call that does not return is \<open>None\<close>.
\<close>

fun each_child :: "(int \<Rightarrow> int list option) \<Rightarrow> row list \<Rightarrow> int list \<Rightarrow> int list option" where
  "each_child rec [] descendants = Some descendants"
| "each_child rec (child # rest) descendants =
     Option.bind (rec (rid child)) (\<lambda>sub. each_child rec rest (descendants @ [rid child] @ sub))"

lemma each_child_mono [partial_function_mono]:
  assumes "\<And>i. mono_option (\<lambda>f. g f i)"
  shows "mono_option (\<lambda>f. each_child (g f) children acc)"
proof (induction children arbitrary: acc)
  case Nil
  show ?case by (simp add: option.const_mono)
next
  case (Cons child rest)
  show ?case
    unfolding each_child.simps
    by (rule bind_mono) (rule assms, rule Cons.IH)
qed

partial_function (option) getDescendantIds :: "row list \<Rightarrow> int \<Rightarrow> int list option" where
  "getDescendantIds data nodeId =
     (case find (\<lambda>n. rid n = nodeId) data of
        None \<Rightarrow> Some []
      | Some node \<Rightarrow>
          each_child (\<lambda>i. getDescendantIds data i) (filter (\<lambda>n. parent_id n = Some nodeId) data) [])"

text \<open>
  \<open>isDescendant\<close>, \<open>getRootNodes\<close> (a parent that is \<open>null\<close> or \<open>0\<close> is falsy), and \<open>moveNode\<close>
  called without an index: it throws when the new parent is a descendant of the node or the
  node is no row, and otherwise sets the parent of the first row with the id.
\<close>

definition isDescendant :: "row list \<Rightarrow> int \<Rightarrow> int \<Rightarrow> bool" where
  "isDescendant data nodeId ancestorId = (ancestorId \<in> set (getAncestorIds data nodeId))"


datatype move_error = CycleRefused | NoSuchNode

fun set_first_parent :: "int \<Rightarrow> int \<Rightarrow> row list \<Rightarrow> row list" where
  "set_first_parent nodeId newParentId [] = []"
| "set_first_parent nodeId newParentId (n # ns) =
     (if rid n = nodeId then n\<lparr>parent_id := Some newParentId\<rparr> # ns
      else n # set_first_parent nodeId newParentId ns)"

definition moveNode :: "row list \<Rightarrow> int \<Rightarrow> int \<Rightarrow> move_error + row list" where
  "moveNode data nodeId newParentId =
     (if isDescendant data newParentId nodeId then Inl CycleRefused
      else if \<not> list_ex (\<lambda>n. rid n = nodeId) data then Inl NoSuchNode
      else Inr (set_first_parent nodeId newParentId data))"



section \<open>Notions of the specification\<close>

text \<open>
  The parent relation: the pairs (child id, parent id) of the rows with a parent. The
  descendants of \<open>i\<close> are the ids from which one or more parent links lead to \<open>i\<close>; the
  descendant closure of \<open>i\<close> is \<open>i\<close> with its descendants.
\<close>

definition parent_rel :: "row list \<Rightarrow> (int \<times> int) set" where
  "parent_rel t = {(c, p). \<exists>r \<in> set t. rid r = c \<and> parent_id r = Some p}"

definition closure :: "row list \<Rightarrow> int \<Rightarrow> int set" where
  "closure t i = {x. (x, i) \<in> (parent_rel t)\<^sup>*}"

definition descendants :: "row list \<Rightarrow> int \<Rightarrow> int set" where
  "descendants t i = {x. (x, i) \<in> (parent_rel t)\<^sup>+}"

section \<open>Example stores\<close>

text \<open>
  The four nodes of the specification's scenario, \<open>{1, null}\<close>, \<open>{2, 1}\<close>, \<open>{3, 1}\<close> and
  \<open>{4, 2}\<close>, and a store whose only row is its own parent.
\<close>

definition scenario :: db where
  "scenario = \<lparr>fk_enforced = True, max_variables = 32766,
     table = Some
       [\<lparr>rid = 1, parent_id = None, cols = [(''name'', JStr ''a'')]\<rparr>,
        \<lparr>rid = 2, parent_id = Some 1, cols = [(''name'', JStr ''b'')]\<rparr>,
        \<lparr>rid = 3, parent_id = Some 1, cols = [(''name'', JStr ''c'')]\<rparr>,
        \<lparr>rid = 4, parent_id = Some 2, cols = [(''name'', JStr ''d'')]\<rparr>]\<rparr>"

definition selfparent :: db where
  "selfparent = \<lparr>fk_enforced = True, max_variables = 32766,
     table = Some [\<lparr>rid = 3, parent_id = Some 3, cols = []\<rparr>]\<rparr>"


definition looped :: db where
  "looped = \<lparr>fk_enforced = True, max_variables = 32766,
     table = Some
       [\<lparr>rid = 1, parent_id = Some 2, cols = [(''name'', JStr ''a'')]\<rparr>,
        \<lparr>rid = 2, parent_id = Some 1, cols = [(''name'', JStr ''b'')]\<rparr>,
        \<lparr>rid = 3, parent_id = Some 1, cols = [(''name'', JStr ''c'')]\<rparr>,
        \<lparr>rid = 4, parent_id = Some 2, cols = [(''name'', JStr ''d'')]\<rparr>]\<rparr>"

definition cyclic_data :: "row list" where
  "cyclic_data = [\<lparr>rid = 1, parent_id = Some 1, cols = []\<rparr>]"

text \<open>Three parentless rows whose ids are \<open>2^53\<close>, \<open>2^53 + 1\<close> and \<open>-3\<close>.\<close>

definition big_ids :: db where
  "big_ids = \<lparr>fk_enforced = True, max_variables = 32766,
     table = Some
       [\<lparr>rid = 9007199254740992, parent_id = None, cols = []\<rparr>,
        \<lparr>rid = 9007199254740993, parent_id = None, cols = []\<rparr>,
        \<lparr>rid = - 3, parent_id = None, cols = []\<rparr>]\<rparr>"

text \<open>An engine that refuses every statement left to it.\<close>

definition no_engine :: engine where
  "no_engine = \<lparr>run_insert = (\<lambda>cs vs d. None), run_update = (\<lambda>cs vs i d. None)\<rparr>"

text \<open>
  An example engine that keeps what it is given: an INSERT appends a row with the next id
  whose remaining columns are the bound values under their names; an UPDATE replaces the
  remaining columns of the rows with the id in the same way.
\<close>

definition recording_engine :: engine where
  "recording_engine =
     \<lparr>run_insert = (\<lambda>cs vs d.
        case table d of
          None \<Rightarrow> None
        | Some t \<Rightarrow>
            let lastID = foldl max 0 (map rid t) + 1
            in Some (lastID, d\<lparr>table := Some (t @ [\<lparr>rid = lastID, parent_id = None, cols = zip cs vs\<rparr>])\<rparr>)),
      run_update = (\<lambda>cs vs i d.
        case table d of
          None \<Rightarrow> None
        | Some t \<Rightarrow>
            Some (length (filter (\<lambda>r. rid r = i) t),
                  d\<lparr>table := Some (map (\<lambda>r. if rid r = i then r\<lparr>cols := zip cs vs\<rparr> else r) t)\<rparr>))\<rparr>"

section \<open>The forest of the tree view (public/js/ui/ui.js)\<close>

text \<open>
  \<open>TreeRenderer.buildForest\<close>. The \<open>Map\<close> from id to node object is an association list in
  insertion order (\<open>Map.set\<close> on a present key replaces the value in place). A node object is
  shared between the map, its parent's \<open>children\<close> and the \<open>roots\<close> and \<open>orphans\<close> arrays, so
  these hold ids, which refer to the node objects of the map. The first pass creates the
  nodes; the second visits them in map order and files each one as a root (no parent, or the
  node is its own parent), as a child of its parent's node, or as an orphan.
\<close>

record node =
  ndata :: row
  children :: "int list"

record forest =
  nodes :: "(int \<times> node) list"
  roots :: "int list"
  orphans :: "int list"









section \<open>Further notions of the specification\<close>

text \<open>The rows after the parent of every row with id \<open>a\<close> has been set to \<open>b\<close>.\<close>

definition set_parent :: "int \<Rightarrow> int \<Rightarrow> row list \<Rightarrow> row list" where
  "set_parent a b t = map (\<lambda>r. if rid r = a then r\<lparr>parent_id := Some b\<rparr> else r) t"




section \<open>The renumbering script (Scripts/test-0.sql)\<close>

text \<open>
  A number of SQLite: a 64-bit integer, or a REAL, which here is always a double with an
  integer value (\<open>SReal x\<close> for the double of value \<open>x\<close>). Two numbers are compared by their
  values. Arithmetic on two integers gives an integer when the result fits 64 bits; otherwise,
  and whenever an operand is a REAL, the operands are taken as doubles and the result is the
  double nearest to the exact one. The unary minus is \<open>0 - x\<close>. \<open>ABS\<close> of the least integer
  is an error (\<open>None\<close>). A column of INTEGER affinity keeps a REAL as an integer when it
  lies strictly between the least and the greatest 64-bit integer.
\<close>

datatype sqlnum = SInt int | SReal int

definition in_int64 :: "int \<Rightarrow> bool" where
  "in_int64 x = (- (2 ^ 63) \<le> x \<and> x < 2 ^ 63)"

definition numeric_value :: "sqlnum \<Rightarrow> int" where
  "numeric_value v = (case v of SInt x \<Rightarrow> x | SReal x \<Rightarrow> x)"

definition as_real :: "sqlnum \<Rightarrow> int" where
  "as_real v = (case v of SInt x \<Rightarrow> to_double x | SReal x \<Rightarrow> x)"

definition sql_arith :: "(int \<Rightarrow> int \<Rightarrow> int) \<Rightarrow> sqlnum \<Rightarrow> sqlnum \<Rightarrow> sqlnum" where
  "sql_arith f a b =
     (case (a, b) of
        (SInt x, SInt y) \<Rightarrow>
          if in_int64 (f x y) then SInt (f x y)
          else SReal (to_double (f (to_double x) (to_double y)))
      | _ \<Rightarrow> SReal (to_double (f (as_real a) (as_real b))))"

definition sql_add :: "sqlnum \<Rightarrow> sqlnum \<Rightarrow> sqlnum" where
  "sql_add = sql_arith (\<lambda>x y. x + y)"

definition sql_sub :: "sqlnum \<Rightarrow> sqlnum \<Rightarrow> sqlnum" where
  "sql_sub = sql_arith (\<lambda>x y. x - y)"

definition sql_mul :: "sqlnum \<Rightarrow> sqlnum \<Rightarrow> sqlnum" where
  "sql_mul = sql_arith (\<lambda>x y. x * y)"

definition sql_neg :: "sqlnum \<Rightarrow> sqlnum" where
  "sql_neg v = sql_sub (SInt 0) v"

definition sql_abs :: "sqlnum \<Rightarrow> sqlnum option" where
  "sql_abs v =
     (case v of
        SInt x \<Rightarrow> if x = - (2 ^ 63) then None else Some (SInt \<bar>x\<bar>)
      | SReal x \<Rightarrow> Some (SReal \<bar>x\<bar>))"

definition sql_max :: "sqlnum \<Rightarrow> sqlnum \<Rightarrow> sqlnum" where
  "sql_max a b = (if numeric_value a < numeric_value b then b else a)"

definition int_affinity :: "sqlnum \<Rightarrow> sqlnum" where
  "int_affinity v =
     (case v of
        SInt x \<Rightarrow> SInt x
      | SReal x \<Rightarrow> if - (2 ^ 63) < x \<and> x < 2 ^ 63 - 1 then SInt x else SReal x)"

text \<open>
  The table \<open>tool\<close> with its columns \<open>id\<close> and \<open>sort_order\<close>. The repository does not define
  the table; its keys are taken to be numbers and the column \<open>sort_order\<close> to have INTEGER
  affinity, as \<open>new_sort_order\<close> of the temporary table has.
\<close>

record tool_row =
  tid :: int
  sort_order :: sqlnum

text \<open>
  Step 3: \<open>ROW_NUMBER() OVER (ORDER BY sort_order)\<close> numbers the rows from 1 in the order of
  their current keys (rows with equal keys in storage order), and the temporary table
  receives, for every row, its id and \<open>(ROW_NUMBER() - 2) * 1000\<close>.
\<close>

definition ranked :: "tool_row list \<Rightarrow> (nat \<times> tool_row) list" where
  "ranked tool = zip [1..<Suc (length tool)] (sort_key (\<lambda>r. numeric_value (sort_order r)) tool)"

definition tmp_tool_sort :: "tool_row list \<Rightarrow> (int \<times> sqlnum) list" where
  "tmp_tool_sort tool =
     map (\<lambda>(n, r). (tid r, int_affinity (sql_mul (sql_sub (SInt (int n)) (SInt 2)) (SInt 1000))))
       (ranked tool)"

text \<open>
  Step 4: \<open>base_width\<close> is \<open>COALESCE(MAX(ABS(new_sort_order)), 0) + 1000\<close>, the maximum taken
  over the temporary table in the order of its primary key. The first UPDATE writes
  \<open>-(new_sort_order * base_width + id)\<close> to every row with an entry in the temporary table,
  the second writes \<open>new_sort_order\<close>.
\<close>

definition base_width :: "(int \<times> sqlnum) list \<Rightarrow> sqlnum option" where
  "base_width tmp =
     (case those (map (\<lambda>(i, new_sort_order). sql_abs new_sort_order) (sort_key fst tmp)) of
        None \<Rightarrow> None
      | Some [] \<Rightarrow> Some (sql_add (SInt 0) (SInt 1000))
      | Some (v # vs) \<Rightarrow> Some (sql_add (foldl sql_max v vs) (SInt 1000)))"

definition phase1 :: "(int \<times> sqlnum) list \<Rightarrow> tool_row list \<Rightarrow> tool_row list option" where
  "phase1 tmp tool =
     (case base_width tmp of
        None \<Rightarrow> None
      | Some w \<Rightarrow>
          Some (map (\<lambda>r. case map_of tmp (tid r) of
                      Some new_sort_order \<Rightarrow>
                        r\<lparr>sort_order :=
                            int_affinity (sql_neg (sql_add (sql_mul new_sort_order w) (SInt (tid r))))\<rparr>
                    | None \<Rightarrow> r) tool))"

definition phase2 :: "(int \<times> sqlnum) list \<Rightarrow> tool_row list \<Rightarrow> tool_row list" where
  "phase2 tmp tool =
     map (\<lambda>r. case map_of tmp (tid r) of
                 Some new_sort_order \<Rightarrow> r\<lparr>sort_order := int_affinity new_sort_order\<rparr>
               | None \<Rightarrow> r) tool"

text \<open>
  The whole script. The temporary table has \<open>id\<close> as its primary key, so the INSERT of step 3
  is rejected when two rows of \<open>tool\<close> share an id or an id is no 64-bit integer; that run,
  like one whose first UPDATE fails, is \<open>None\<close>.
\<close>

definition renumber :: "tool_row list \<Rightarrow> tool_row list option" where
  "renumber tool =
     (if distinct (map tid tool) \<and> list_all (\<lambda>r. in_int64 (tid r)) tool
      then let tmp = tmp_tool_sort tool in map_option (phase2 tmp) (phase1 tmp tool)
      else None)"

text \<open>
  The value of the final key the script gives the row with id \<open>i\<close>, and of the width used by
  the first phase.
\<close>

definition new_key :: "tool_row list \<Rightarrow> int \<Rightarrow> int" where
  "new_key tool i = numeric_value (the (map_of (tmp_tool_sort tool) i))"

definition width :: "tool_row list \<Rightarrow> int" where
  "width tool = numeric_value (the (base_width (tmp_tool_sort tool)))"

text \<open>Three groups of rows on which the script is run below.\<close>

definition group_a :: "tool_row list" where
  "group_a = [\<lparr>tid = 2000001, sort_order = SInt 1\<rparr>, \<lparr>tid = 1, sort_order = SInt 2\<rparr>]"

definition group_b :: "tool_row list" where
  "group_b = [\<lparr>tid = 1, sort_order = SInt 5\<rparr>, \<lparr>tid = 2, sort_order = SInt 7\<rparr>,
              \<lparr>tid = 3, sort_order = SInt 6\<rparr>]"

definition group_c :: "tool_row list" where
  "group_c = [\<lparr>tid = 1, sort_order = SInt 1\<rparr>, \<lparr>tid = 2, sort_order = SInt 2\<rparr>,
              \<lparr>tid = 9223372036854775807, sort_order = SInt 3\<rparr>]"

section \<open>Applying a configuration (public/js/config/config-form-controller.js)\<close>

text \<open>
  \<open>ConfigFormController.applyConfig\<close> talks to the server through \<open>fetch\<close> and to the operator
  through \<open>confirm\<close>. The model returns the requests and dialogs in the order the code issues
  them, and how the call ends; what the server and the operator answer is given by an
  environment. The configuration of the form is reduced to the two fields the code compares.
\<close>

record form_config =
  DB_PATH :: string
  TABLE_NAME :: string

record session_info =
  sid :: string
  lastAccess :: int
  sconfig :: "form_config option"

text \<open>
  The id in a forced PUT: a session id, or the \<open>'temp-' + Date.now()\<close> of the forced creation.
\<close>

datatype session_ref = Sid string | Temp int

datatype event =
    GetSessions
  | DeleteSession string
  | PostSession
  | Confirm
  | PutForce session_ref
  | PostConfig string

text \<open>How \<open>applyConfig\<close> ends: it returns the server's result, or throws one of its errors.\<close>

datatype outcome = Applied | BadSessionResponse | CreateFailed | UserCancelled | ApplyFailed

text \<open>
  The environment: the \<open>treedb.activeSessionId\<close> of \<open>localStorage\<close>; \<open>Date.now()\<close>; the session
  list of the first \<open>GET /api/session\<close> (\<open>None\<close> when the response is not ok, is no array, or
  the request fails); status and \<open>data.sessionId\<close> of \<open>POST /api/session\<close>; the operator's
  answer to \<open>confirm\<close>; \<open>data.sessionId\<close> of the forced PUT; the session list of the second
  \<open>GET /api/session\<close>; the status of \<open>POST /api/config\<close>; whether the forced PUT after a
  configuration conflict is ok.
\<close>

record env =
  stored_session :: "string option"
  date_now :: int
  sessions_reply :: "session_info list option"
  post_status :: nat
  post_session :: "string option"
  confirm_reply :: bool
  force_session :: "string option"
  sessions_reply2 :: "session_info list option"
  config_status :: nat
  force2_ok :: bool

definition response_ok :: "nat \<Rightarrow> bool" where
  "response_ok st = (200 \<le> st \<and> st \<le> 299)"

text \<open>A missing or empty string is falsy.\<close>

definition truthy :: "string option \<Rightarrow> string option" where
  "truthy s = (case s of None \<Rightarrow> None | Some x \<Rightarrow> if x = [] then None else Some x)"

definition same_resource :: "form_config \<Rightarrow> session_info \<Rightarrow> bool" where
  "same_resource cfg s =
     (case sconfig s of
        None \<Rightarrow> False
      | Some c \<Rightarrow> DB_PATH c = DB_PATH cfg \<and> TABLE_NAME c = TABLE_NAME cfg)"

definition isExpired :: "env \<Rightarrow> session_info \<Rightarrow> bool" where
  "isExpired e s = (date_now e - lastAccess s > 30 * 60 * 1000)"

text \<open>
  \<open>cleanupConflictingSessions\<close>: one DELETE for every listed session that is older than thirty
  minutes or uses the same database path and table name.
\<close>

definition cleanupConflictingSessions :: "env \<Rightarrow> form_config \<Rightarrow> event list" where
  "cleanupConflictingSessions e cfg =
     GetSessions #
     (case sessions_reply e of
        None \<Rightarrow> []
      | Some sessions \<Rightarrow>
          map (\<lambda>s. DeleteSession (sid s))
            (filter (\<lambda>s. isExpired e s \<or> same_resource cfg s) sessions))"

text \<open>The branch of \<open>applyConfig\<close> taken when no session id is stored.\<close>

definition create_session :: "env \<Rightarrow> form_config \<Rightarrow> event list \<times> (outcome + string)" where
  "create_session e cfg =
     (let before = cleanupConflictingSessions e cfg @ [PostSession] in
      if response_ok (post_status e) then
        (case truthy (post_session e) of
           Some s \<Rightarrow> (before, Inr s)
         | None \<Rightarrow> (before, Inl BadSessionResponse))
      else if post_status e = 409 then
        (if confirm_reply e then
           (case truthy (force_session e) of
              Some s \<Rightarrow> (before @ [Confirm, PutForce (Temp (date_now e))], Inr s)
            | None \<Rightarrow>
                (before @ [Confirm, PutForce (Temp (date_now e)), GetSessions],
                 case sessions_reply2 e of
                   None \<Rightarrow> Inl CreateFailed
                 | Some sessions \<Rightarrow>
                     (case find (same_resource cfg) sessions of
                        None \<Rightarrow> Inl CreateFailed
                      | Some existing \<Rightarrow>
                          (case truthy (Some (sid existing)) of
                             None \<Rightarrow> Inl CreateFailed
                           | Some s \<Rightarrow> Inr s))))
         else (before @ [Confirm], Inl UserCancelled))
      else (before, Inl CreateFailed))"

text \<open>The second half of \<open>applyConfig\<close>: \<open>POST /api/config\<close>, forced on a 409.\<close>

definition update_config :: "env \<Rightarrow> string \<Rightarrow> event list \<times> outcome" where
  "update_config e sessionId =
     (if response_ok (config_status e) then ([PostConfig sessionId], Applied)
      else if config_status e = 409 then
        ([PostConfig sessionId, PutForce (Sid sessionId)],
         if force2_ok e then Applied else ApplyFailed)
      else ([PostConfig sessionId], ApplyFailed))"

definition applyConfig :: "env \<Rightarrow> form_config \<Rightarrow> event list \<times> outcome" where
  "applyConfig e cfg =
     (case truthy (stored_session e) of
        Some sessionId \<Rightarrow> update_config e sessionId
      | None \<Rightarrow>
          (case create_session e cfg of
             (evs, Inl failure) \<Rightarrow> (evs, failure)
           | (evs, Inr sessionId) \<Rightarrow>
               (let (evs', res) = update_config e sessionId in (evs @ evs', res))))"

text \<open>
  A second tab opening the database another tab is working on, and a tab whose configuration
  update meets a conflict.
\<close>

definition form0 :: form_config where
  "form0 = \<lparr>DB_PATH = ''data/treedb.sqlite'', TABLE_NAME = ''tree_nodes''\<rparr>"

definition other_tab :: session_info where
  "other_tab = \<lparr>sid = ''other-tab'', lastAccess = 999000, sconfig = Some form0\<rparr>"

definition second_tab :: env where
  "second_tab = \<lparr>stored_session = None, date_now = 1000000, sessions_reply = Some [other_tab],
     post_status = 201, post_session = Some ''mine'', confirm_reply = False,
     force_session = None, sessions_reply2 = None, config_status = 200, force2_ok = False\<rparr>"

definition config_conflict :: env where
  "config_conflict = \<lparr>stored_session = Some ''mine'', date_now = 1000000, sessions_reply = None,
     post_status = 201, post_session = None, confirm_reply = False,
     force_session = None, sessions_reply2 = None, config_status = 409, force2_ok = True\<rparr>"

section \<open>The session registry\<close>

text \<open>
  Modelled from the spec: the SessionRegistry and the \<open>authorize\<close> operation of the
  AccessCoordinator (sections 4.1 and 4.2). The server side of the session protocol is not
  among the sources, which hold only its callers (session.js, config-form-controller.js). A
  session token is a number; the configuration of a session is kept as an opaque string.
\<close>

record session =
  sessionId :: nat
  resourceKey :: string
  createdAt :: int
  lastAccessAt :: int
  session_config :: string

record registry =
  sessions :: "session list"
  next_token :: nat

datatype registry_error = ConflictError nat | NotFoundError | ExpiredError

text \<open>
  Modelled from the spec: the idle timeout, 1800 seconds by default.
\<close>

definition idle_timeout :: int where
  "idle_timeout = 1800"

text \<open>
  Modelled from the spec: a session is expired when \<open>now - lastAccessAt\<close> exceeds the idle
  timeout.
\<close>

definition expired :: "int \<Rightarrow> session \<Rightarrow> bool" where
  "expired now s = (now - lastAccessAt s > idle_timeout)"

text \<open>
  Modelled from the spec: \<open>sweep(now)\<close> deletes every expired session.
\<close>

definition sweep :: "int \<Rightarrow> registry \<Rightarrow> registry" where
  "sweep now reg = reg\<lparr>sessions := filter (\<lambda>s. \<not> expired now s) (sessions reg)\<rparr>"

text \<open>
  Modelled from the spec: \<open>find(resourceKey)\<close>, the session holding the resource, if any.
\<close>

definition find_holder :: "registry \<Rightarrow> string \<Rightarrow> session option" where
  "find_holder reg key = find (\<lambda>s. resourceKey s = key) (sessions reg)"

text \<open>
  Modelled from the spec: \<open>revoke(sessionId)\<close> deletes the session regardless of age; idempotent.
\<close>

definition revoke :: "nat \<Rightarrow> registry \<Rightarrow> registry" where
  "revoke i reg = reg\<lparr>sessions := filter (\<lambda>s. sessionId s \<noteq> i) (sessions reg)\<rparr>"

text \<open>
  Modelled from the spec: a new session for the resource, with a token not used before.
\<close>

definition new_session :: "int \<Rightarrow> string \<Rightarrow> string \<Rightarrow> registry \<Rightarrow> (registry_error + session) \<times> registry" where
  "new_session now key cfg reg =
     (let s = \<lparr>sessionId = next_token reg, resourceKey = key, createdAt = now,
                lastAccessAt = now, session_config = cfg\<rparr>
      in (Inr s, reg\<lparr>sessions := sessions reg @ [s], next_token := Suc (next_token reg)\<rparr>))"

text \<open>
  Modelled from the spec: \<open>create(resourceKey, config, force)\<close>. Sessions are swept first. With no holder a new
  session is created; with a holder and no force the call fails with the holder's id; with
  force the holder is revoked and a new session created, in one step.
\<close>

definition create :: "int \<Rightarrow> string \<Rightarrow> string \<Rightarrow> bool \<Rightarrow> registry \<Rightarrow> (registry_error + session) \<times> registry" where
  "create now key cfg force reg =
     (let reg1 = sweep now reg in
      case find_holder reg1 key of
        None \<Rightarrow> new_session now key cfg reg1
      | Some holder \<Rightarrow>
          if force then new_session now key cfg (revoke (sessionId holder) reg1)
          else (Inl (ConflictError (sessionId holder)), reg1))"

text \<open>
  Modelled from the spec: \<open>touch(sessionId)\<close> refreshes \<open>lastAccessAt\<close>.
\<close>

definition touch :: "int \<Rightarrow> nat \<Rightarrow> registry \<Rightarrow> (registry_error + unit) \<times> registry" where
  "touch now i reg =
     (if list_ex (\<lambda>s. sessionId s = i) (sessions reg)
      then (Inr (), reg\<lparr>sessions := map (\<lambda>s. if sessionId s = i then s\<lparr>lastAccessAt := now\<rparr> else s) (sessions reg)\<rparr>)
      else (Inl NotFoundError, reg))"

text \<open>
  Modelled from the spec: \<open>authorize(sessionId)\<close> of the AccessCoordinator fails when the session does not
  exist or is expired; else it touches the session and returns its configuration.
\<close>

definition authorize :: "int \<Rightarrow> nat \<Rightarrow> registry \<Rightarrow> (registry_error + string) \<times> registry" where
  "authorize now i reg =
     (case find (\<lambda>s. sessionId s = i) (sessions reg) of
        None \<Rightarrow> (Inl ExpiredError, reg)
      | Some s \<Rightarrow>
          if expired now s then (Inl ExpiredError, reg)
          else (Inr (session_config s), snd (touch now i reg)))"

text \<open>
  Modelled from the spec: the invariant of the registry. No two sessions hold the same resource key, and
  every token in use is below the next token.
\<close>

definition registry_ok :: "registry \<Rightarrow> bool" where
  "registry_ok reg =
     (distinct (map resourceKey (sessions reg)) \<and>
      list_all (\<lambda>s. sessionId s < next_token reg) (sessions reg))"

text \<open>
  Modelled from the spec: the registry of a server that has just started.
\<close>

definition empty_registry :: registry where
  "empty_registry = \<lparr>sessions = [], next_token = 0\<rparr>"

text \<open>The session the first tab obtains from the empty registry at time 0.\<close>

definition first_session :: session where
  "first_session = \<lparr>sessionId = 0, resourceKey = ''data/treedb.sqlite|tree_nodes'', createdAt = 0,
     lastAccessAt = 0, session_config = ''first''\<rparr>"

section \<open>Properties\<close>

subsection \<open>Numbers and the route\<close>

lemma to_double_safe: "\<bar>n\<bar> \<le> int MAX_SAFE_INTEGER \<Longrightarrow> to_double n = n"
proof -
  assume "\<bar>n\<bar> \<le> int MAX_SAFE_INTEGER"
  then have "nat \<bar>n\<bar> < 2 ^ 53" by (simp add: MAX_SAFE_INTEGER_def)
  then have "round_to_53 (nat \<bar>n\<bar>) = nat \<bar>n\<bar>" by (simp add: round_to_53_def)
  then show ?thesis by (simp add: to_double_def sgn_if)
qed

lemma digit_chars:
  "list_all (\<lambda>n. digit_value (digit_char n) = n \<and> is_digit (digit_char n)) [0..<10]"
  by code_simp

lemma digit_value_char: "n < 10 \<Longrightarrow> digit_value (digit_char n) = n"
  using digit_chars by (simp add: list_all_iff)

lemma is_digit_char: "n < 10 \<Longrightarrow> is_digit (digit_char n)"
  using digit_chars by (simp add: list_all_iff)

lemma decimal_value_snoc: "decimal_value (ds @ [c]) = 10 * decimal_value ds + digit_value c"
  by (simp add: decimal_value_def)

lemma decimal_value_digits_of: "decimal_value (digits_of n) = n"
proof (induction n rule: digits_of.induct)
  case (1 n)
  show ?case
  proof (cases "n < 10")
    case True
    then show ?thesis
      by (subst digits_of.simps) (simp add: decimal_value_def digit_value_char)
  next
    case False
    then have "decimal_value (digits_of n) = 10 * (n div 10) + n mod 10"
      by (subst digits_of.simps) (simp add: decimal_value_snoc 1 digit_value_char)
    then show ?thesis by simp
  qed
qed

lemma digits_of_digits: "list_all is_digit (digits_of n)"
proof (induction n rule: digits_of.induct)
  case (1 n)
  show ?case
    by (subst digits_of.simps) (simp add: 1 is_digit_char)
qed

lemma digits_of_not_Nil: "digits_of n \<noteq> []"
  by (subst digits_of.simps) simp

lemma match_id_node_path: "match_id (node_path n) = Some (digits_of n)"
proof -
  have tw: "takeWhile is_digit (digits_of n) = digits_of n"
    using digits_of_digits [of n] by (simp add: takeWhile_eq_all_conv list_all_iff)
  show ?thesis by (simp add: node_path_def digits_of_not_Nil tw)
qed

lemma integer_id_digits_of:
  assumes "n \<le> MAX_SAFE_INTEGER"
  shows "integer_id (digits_of n) = Some (int n)"
proof -
  have "\<not> (2 :: nat) ^ 1024 - 2 ^ 970 \<le> n"
    using assms by (simp add: MAX_SAFE_INTEGER_def)
  moreover have "to_double (int n) = int n"
    using assms by (intro to_double_safe) simp
  ultimately show ?thesis by (simp add: integer_id_def decimal_value_digits_of)
qed

lemma handleApi_delete:
  assumes "n \<le> MAX_SAFE_INTEGER"
  shows "handleApi sn eng cfg d \<lparr>http_method = DELETE, pathname = node_path n, body = b\<rparr> =
           handleDelete d (int n)"
  by (simp add: handleApi_def match_id_node_path integer_id_digits_of [OF assms])

lemma handleApi_put:
  assumes "n \<le> MAX_SAFE_INTEGER"
  shows "handleApi sn eng cfg d \<lparr>http_method = PUT, pathname = node_path n, body = Some p\<rparr> =
           Some (handlePut sn eng cfg d (int n) p)"
  by (simp add: handleApi_def match_id_node_path integer_id_digits_of [OF assms])

subsection \<open>Normalisation of incoming values\<close>

lemma lower_char_i: "lower_char c = CHR ''i'' \<longleftrightarrow> c = CHR ''i'' \<or> c = CHR ''I''"
  by (auto simp: lower_char_def split: if_splits)

lemma lower_char_d: "lower_char c = CHR ''d'' \<longleftrightarrow> c = CHR ''d'' \<or> c = CHR ''D''"
  by (auto simp: lower_char_def split: if_splits)

lemma includes_str_id:
  "includes_str s [a, b] \<longleftrightarrow> (\<exists>pre post. s = pre @ a # b # post)"
proof (induction s)
  case Nil
  then show ?case by simp
next
  case (Cons c cs)
  show ?case
  proof
    assume "includes_str (c # cs) [a, b]"
    then consider "take 2 (c # cs) = [a, b]" | "includes_str cs [a, b]" by auto
    then show "\<exists>pre post. c # cs = pre @ a # b # post"
    proof cases
      case 1
      then obtain post where "c # cs = a # b # post"
        by (cases cs) (auto simp: take_Suc_conv_app_nth)
      then have "c # cs = [] @ a # b # post" by simp
      then show ?thesis by blast
    next
      case 2
      with Cons.IH obtain pre post where "cs = pre @ a # b # post" by blast
      then have "c # cs = (c # pre) @ a # b # post" by simp
      then show ?thesis by blast
    qed
  next
    assume "\<exists>pre post. c # cs = pre @ a # b # post"
    then obtain pre post where e: "c # cs = pre @ a # b # post" by blast
    show "includes_str (c # cs) [a, b]"
    proof (cases pre)
      case Nil
      with e show ?thesis by auto
    next
      case (Cons p ps)
      with e have "cs = ps @ a # b # post" by simp
      with Cons.IH show ?thesis by auto
    qed
  qed
qed

lemma contains_id_ci_includes:
  "contains_id_ci key \<longleftrightarrow> includes_str (toLowerCase key) ''id''"
proof
  assume "contains_id_ci key"
  then obtain pre c d post where k: "key = pre @ c # d # post"
    and c: "c = CHR ''i'' \<or> c = CHR ''I''" and d: "d = CHR ''d'' \<or> d = CHR ''D''"
    unfolding contains_id_ci_def by blast
  have "toLowerCase key = map lower_char pre @ CHR ''i'' # CHR ''d'' # map lower_char post"
    using k c d lower_char_i [of c] lower_char_d [of d] by (simp add: toLowerCase_def)
  then show "includes_str (toLowerCase key) ''id''"
    unfolding includes_str_id by blast
next
  assume "includes_str (toLowerCase key) ''id''"
  then obtain pre post where e: "map lower_char key = pre @ CHR ''i'' # CHR ''d'' # post"
    unfolding includes_str_id toLowerCase_def by blast
  then obtain k1 k2 where k: "key = k1 @ k2" and p: "map lower_char k1 = pre"
    and r: "map lower_char k2 = CHR ''i'' # CHR ''d'' # post"
    by (auto simp: map_eq_append_conv)
  from r obtain c d k3 where k2: "k2 = c # d # k3" and "lower_char c = CHR ''i''" "lower_char d = CHR ''d''"
    by (auto simp: map_eq_Cons_conv)
  then show "contains_id_ci key"
    unfolding contains_id_ci_def using k lower_char_i [of c] lower_char_d [of d] by blast
qed

lemma normalizeIncomingValue_stored_value:
  "normalizeIncomingValue sn cfg key v = stored_value sn cfg key v"
  by (cases v) (simp_all add: normalizeIncomingValue_def stored_value_def contains_id_ci_includes)

lemma normalized_values_stored:
  "normalized_values sn cfg p =
     map (\<lambda>col. stored_value sn cfg col (payload_get p col)) (payload_columns cfg p)"
  by (simp add: normalized_values_def normalizeIncomingValue_stored_value)

lemma handleApi_post:
  "handleApi sn eng cfg d \<lparr>http_method = POST, pathname = ''/api/nodes'', body = Some p\<rparr> =
     Some (handlePost sn eng cfg d p)"
  by (simp add: handleApi_def)

text \<open>
  C10 (as amended). On every insert (\<open>POST /api/nodes\<close>) and every update
  (\<open>PUT /api/nodes/n\<close>) with a payload that has a field besides the identity field, the values
  bound to the statement are, field by field: \<open>null\<close> for an empty string or \<open>undefined\<close>;
  otherwise, for the configured parent field and for a field whose name contains "id" in
  any letter case, the number \<open>Number(value)\<close>, which is 0 for \<open>null\<close>, 1 and 0 for \<open>true\<close> and
  \<open>false\<close>, the number read from a string, and \<open>null\<close> only where that is NaN; otherwise the
  value as it came. A payload with no such field is answered 400. Where the model holds the
  column itself, the parent column of a store without the foreign key, that value is what
  the rows with the id hold afterwards.
\<close>

theorem handlers_store_coerced_values:
  assumes "n \<le> MAX_SAFE_INTEGER"
  shows "handleApi sn eng cfg d \<lparr>http_method = POST, pathname = ''/api/nodes'', body = Some p\<rparr> =
           Some (if payload_columns cfg p = [] then (Error 400, d)
                 else insert_with eng d (payload_columns cfg p)
                        (map (\<lambda>col. stored_value sn cfg col (payload_get p col)) (payload_columns cfg p))) \<and>
         handleApi sn eng cfg d \<lparr>http_method = PUT, pathname = node_path n, body = Some p\<rparr> =
           Some (if payload_columns cfg p = [] then (Error 400, d)
                 else update_with eng cfg d (int n) (payload_columns cfg p)
                        (map (\<lambda>col. stored_value sn cfg col (payload_get p col)) (payload_columns cfg p))) \<and>
         (table d = Some t \<and> PARENT_FIELD cfg \<noteq> ID_FIELD cfg \<and> \<not> fk_enforced d \<longrightarrow>
          handleApi sn eng cfg d
              \<lparr>http_method = PUT, pathname = node_path n, body = Some [(PARENT_FIELD cfg, v)]\<rparr> =
            Some (if list_ex (\<lambda>r. rid r = int n) t
                  then Json 200 (fetch_row (d\<lparr>table := Some (map (\<lambda>r. if rid r = int n
                         then r\<lparr>parent_id := as_parent (stored_value sn cfg (PARENT_FIELD cfg) v)\<rparr> else r) t)\<rparr>) (int n))
                  else Error 404,
                  d\<lparr>table := Some (map (\<lambda>r. if rid r = int n
                         then r\<lparr>parent_id := as_parent (stored_value sn cfg (PARENT_FIELD cfg) v)\<rparr> else r) t)\<rparr>))"
proof -
  have a: "handleApi sn eng cfg d \<lparr>http_method = POST, pathname = ''/api/nodes'', body = Some p\<rparr> =
           Some (if payload_columns cfg p = [] then (Error 400, d)
                 else insert_with eng d (payload_columns cfg p)
                        (map (\<lambda>col. stored_value sn cfg col (payload_get p col)) (payload_columns cfg p)))"
    by (simp add: handleApi_post handlePost_def Let_def normalized_values_stored)
  have b: "handleApi sn eng cfg d \<lparr>http_method = PUT, pathname = node_path n, body = Some p\<rparr> =
           Some (if payload_columns cfg p = [] then (Error 400, d)
                 else update_with eng cfg d (int n) (payload_columns cfg p)
                        (map (\<lambda>col. stored_value sn cfg col (payload_get p col)) (payload_columns cfg p)))"
    for p
    by (simp add: handleApi_put [OF assms] handlePut_def Let_def normalized_values_stored)
  have c: "handleApi sn eng cfg d
              \<lparr>http_method = PUT, pathname = node_path n, body = Some [(PARENT_FIELD cfg, v)]\<rparr> =
            Some (if list_ex (\<lambda>r. rid r = int n) t
                  then Json 200 (fetch_row (d\<lparr>table := Some (map (\<lambda>r. if rid r = int n
                         then r\<lparr>parent_id := as_parent (stored_value sn cfg (PARENT_FIELD cfg) v)\<rparr> else r) t)\<rparr>) (int n))
                  else Error 404,
                  d\<lparr>table := Some (map (\<lambda>r. if rid r = int n
                         then r\<lparr>parent_id := as_parent (stored_value sn cfg (PARENT_FIELD cfg) v)\<rparr> else r) t)\<rparr>)"
    if h: "table d = Some t" "PARENT_FIELD cfg \<noteq> ID_FIELD cfg" "\<not> fk_enforced d"
  proof -
    have cs: "payload_columns cfg [(PARENT_FIELD cfg, v)] = [PARENT_FIELD cfg]"
      using h(2) by (simp add: payload_columns_def)
    have l: "(filter (\<lambda>r. rid r = int n) t = []) = (\<not> list_ex (\<lambda>r. rid r = int n) t)"
      by (auto simp: list_ex_iff filter_empty_conv)
    show ?thesis
      unfolding b
      by (simp add: cs payload_get_def update_with_def run_statement_def sql_update_parent_def
          h(1,3) Let_def l)
  qed
  from a b c show ?thesis by blast
qed

lemma contains_id_ci_examples:
  "contains_id_ci ''dept_ID''" "\<not> contains_id_ci ''name''" "\<not> contains_id_ci ''note''"
  "contains_id_ci ''parent_id''" "contains_id_ci ''width''"
  by (simp_all add: contains_id_ci_includes toLowerCase_def lower_char_def)

lemma node_path_2: "node_path 2 = ''/api/nodes/2''"
  by (simp add: node_path_def digits_of.simps [of 2] digit_char_def)

theorem handlers_store_coerced_values_witness:
  "2 \<le> MAX_SAFE_INTEGER \<and>
   handleApi (\<lambda>s. if s = ''7'' then Some 7 else None) recording_engine default_config scenario
       \<lparr>http_method = POST, pathname = ''/api/nodes'',
        body = Some [(''id'', JNum 99), (''name'', JStr []), (''dept_ID'', JStr ''7''), (''width'', JStr ''wide''),
                     (''parent_id'', JBool True), (''note'', JNum 5)]\<rparr> =
     Some (Json 201
             [\<lparr>rid = 5, parent_id = None,
               cols = [(''name'', JNull), (''dept_ID'', JNum 7), (''width'', JNull), (''parent_id'', JNum 1),
                       (''note'', JNum 5)]\<rparr>],
           scenario\<lparr>table := Some (rows scenario @
             [\<lparr>rid = 5, parent_id = None,
               cols = [(''name'', JNull), (''dept_ID'', JNum 7), (''width'', JNull), (''parent_id'', JNum 1),
                       (''note'', JNum 5)]\<rparr>])\<rparr>) \<and>
   handleApi (\<lambda>s. if s = ''7'' then Some 7 else None) recording_engine default_config scenario
       \<lparr>http_method = PUT, pathname = ''/api/nodes/2'', body = Some [(''parent_id'', JStr [])]\<rparr> =
     Some (Json 200 [\<lparr>rid = 2, parent_id = None, cols = [(''name'', JStr ''b'')]\<rparr>],
           scenario\<lparr>table := Some
             [\<lparr>rid = 1, parent_id = None, cols = [(''name'', JStr ''a'')]\<rparr>,
              \<lparr>rid = 2, parent_id = None, cols = [(''name'', JStr ''b'')]\<rparr>,
              \<lparr>rid = 3, parent_id = Some 1, cols = [(''name'', JStr ''c'')]\<rparr>,
              \<lparr>rid = 4, parent_id = Some 2, cols = [(''name'', JStr ''d'')]\<rparr>]\<rparr>) \<and>
   handleApi (\<lambda>s. if s = ''7'' then Some 7 else None) recording_engine default_config scenario
       \<lparr>http_method = PUT, pathname = ''/api/nodes/2'', body = Some [(''id'', JNum 2)]\<rparr> =
     Some (Error 400, scenario) \<and>
   table (scenario\<lparr>fk_enforced := False\<rparr>) = Some (rows scenario) \<and>
   PARENT_FIELD default_config \<noteq> ID_FIELD default_config \<and>
   \<not> fk_enforced (scenario\<lparr>fk_enforced := False\<rparr>) \<and>
   handleApi (\<lambda>s. if s = ''7'' then Some 7 else None) recording_engine default_config
       (scenario\<lparr>fk_enforced := False\<rparr>)
       \<lparr>http_method = PUT, pathname = ''/api/nodes/2'', body = Some [(''parent_id'', JStr ''7'')]\<rparr> =
     Some (Json 200 [\<lparr>rid = 2, parent_id = Some 7, cols = [(''name'', JStr ''b'')]\<rparr>],
           \<lparr>fk_enforced = False, max_variables = 32766, table = Some
             [\<lparr>rid = 1, parent_id = None, cols = [(''name'', JStr ''a'')]\<rparr>,
              \<lparr>rid = 2, parent_id = Some 7, cols = [(''name'', JStr ''b'')]\<rparr>,
              \<lparr>rid = 3, parent_id = Some 1, cols = [(''name'', JStr ''c'')]\<rparr>,
              \<lparr>rid = 4, parent_id = Some 2, cols = [(''name'', JStr ''d'')]\<rparr>]\<rparr>)"
proof -
  have h1: "table (scenario\<lparr>fk_enforced := False\<rparr>) = Some (rows scenario)"
    by (simp add: scenario_def rows_def)
  have h2: "PARENT_FIELD default_config \<noteq> ID_FIELD default_config"
    by (simp add: default_config_def)
  have h3: "\<not> fk_enforced (scenario\<lparr>fk_enforced := False\<rparr>)" by simp
  have n: "2 \<le> MAX_SAFE_INTEGER" by (simp add: MAX_SAFE_INTEGER_def)
  note t = handlers_store_coerced_values [OF n, of "\<lambda>s. if s = ''7'' then Some 7 else None"
      recording_engine default_config scenario]
  have a: "handleApi (\<lambda>s. if s = ''7'' then Some 7 else None) recording_engine default_config scenario
       \<lparr>http_method = POST, pathname = ''/api/nodes'',
        body = Some [(''id'', JNum 99), (''name'', JStr []), (''dept_ID'', JStr ''7''), (''width'', JStr ''wide''),
                     (''parent_id'', JBool True), (''note'', JNum 5)]\<rparr> =
     Some (Json 201
             [\<lparr>rid = 5, parent_id = None,
               cols = [(''name'', JNull), (''dept_ID'', JNum 7), (''width'', JNull), (''parent_id'', JNum 1),
                       (''note'', JNum 5)]\<rparr>],
           scenario\<lparr>table := Some (rows scenario @
             [\<lparr>rid = 5, parent_id = None,
               cols = [(''name'', JNull), (''dept_ID'', JNum 7), (''width'', JNull), (''parent_id'', JNum 1),
                       (''note'', JNum 5)]\<rparr>])\<rparr>)"
    using t [THEN conjunct1, of "[(''id'', JNum 99), (''name'', JStr []), (''dept_ID'', JStr ''7''),
        (''width'', JStr ''wide''), (''parent_id'', JBool True), (''note'', JNum 5)]"]
    by (simp add: payload_columns_def payload_get_def stored_value_def contains_id_ci_examples
        default_config_def insert_with_def recording_engine_def scenario_def rows_def fetch_row_def
        js_row_def to_double_def round_to_53_def Let_def)
  have b: "handleApi (\<lambda>s. if s = ''7'' then Some 7 else None) recording_engine default_config scenario
       \<lparr>http_method = PUT, pathname = ''/api/nodes/2'', body = Some [(''parent_id'', JStr [])]\<rparr> =
     Some (Json 200 [\<lparr>rid = 2, parent_id = None, cols = [(''name'', JStr ''b'')]\<rparr>],
           scenario\<lparr>table := Some
             [\<lparr>rid = 1, parent_id = None, cols = [(''name'', JStr ''a'')]\<rparr>,
              \<lparr>rid = 2, parent_id = None, cols = [(''name'', JStr ''b'')]\<rparr>,
              \<lparr>rid = 3, parent_id = Some 1, cols = [(''name'', JStr ''c'')]\<rparr>,
              \<lparr>rid = 4, parent_id = Some 2, cols = [(''name'', JStr ''d'')]\<rparr>]\<rparr>)"
    using t [THEN conjunct2, of "[(''parent_id'', JStr [])]"]
    by (simp add: node_path_2 payload_columns_def payload_get_def stored_value_def
        default_config_def update_with_def run_statement_def sql_update_parent_def as_parent_def
        parent_present_def scenario_def rows_def fetch_row_def js_row_def to_double_def
        round_to_53_def Let_def)
  have c: "handleApi (\<lambda>s. if s = ''7'' then Some 7 else None) recording_engine default_config scenario
       \<lparr>http_method = PUT, pathname = ''/api/nodes/2'', body = Some [(''id'', JNum 2)]\<rparr> =
     Some (Error 400, scenario)"
    using t [THEN conjunct2, of "[(''id'', JNum 2)]"]
    by (simp add: node_path_2 payload_columns_def default_config_def)
  have e: "handleApi (\<lambda>s. if s = ''7'' then Some 7 else None) recording_engine default_config
       (scenario\<lparr>fk_enforced := False\<rparr>)
       \<lparr>http_method = PUT, pathname = ''/api/nodes/2'', body = Some [(''parent_id'', JStr ''7'')]\<rparr> =
     Some (Json 200 [\<lparr>rid = 2, parent_id = Some 7, cols = [(''name'', JStr ''b'')]\<rparr>],
           \<lparr>fk_enforced = False, max_variables = 32766, table = Some
             [\<lparr>rid = 1, parent_id = None, cols = [(''name'', JStr ''a'')]\<rparr>,
              \<lparr>rid = 2, parent_id = Some 7, cols = [(''name'', JStr ''b'')]\<rparr>,
              \<lparr>rid = 3, parent_id = Some 1, cols = [(''name'', JStr ''c'')]\<rparr>,
              \<lparr>rid = 4, parent_id = Some 2, cols = [(''name'', JStr ''d'')]\<rparr>]\<rparr>)"
    using handlers_store_coerced_values [OF n, of "\<lambda>s. if s = ''7'' then Some 7 else None"
        recording_engine default_config "scenario\<lparr>fk_enforced := False\<rparr>" _ "rows scenario" "JStr ''7''",
        THEN conjunct2, THEN conjunct2] h1 h2 h3
    by (simp add: node_path_2 stored_value_def as_parent_def default_config_def scenario_def
        rows_def fetch_row_def js_row_def to_double_def round_to_53_def)
  from n a b c h1 h2 h3 e show ?thesis by blast
qed

text \<open>
  C10 (as stated) fails on \<open>null\<close> and on the booleans, which are no numbers and are
  not stored as \<open>null\<close>: \<open>PUT /api/nodes/2\<close> with \<open>{parent_id: null}\<close> binds 0, which the
  foreign key of the scenario refuses (500), and which a store without the foreign key keeps
  as the parent 0; \<open>PUT /api/nodes/4\<close> with \<open>{parent_id: true}\<close> stores the parent 1.
\<close>

theorem null_parent_stored_as_zero_counterexample:
  "handleApi (\<lambda>s. None) no_engine default_config scenario
       \<lparr>http_method = PUT, pathname = ''/api/nodes/2'', body = Some [(''parent_id'', JNull)]\<rparr> =
     Some (Error 500, scenario) \<and>
   handleApi (\<lambda>s. None) no_engine default_config (scenario\<lparr>fk_enforced := False\<rparr>)
       \<lparr>http_method = PUT, pathname = ''/api/nodes/2'', body = Some [(''parent_id'', JNull)]\<rparr> =
     Some (Json 200 [\<lparr>rid = 2, parent_id = Some 0, cols = [(''name'', JStr ''b'')]\<rparr>],
           \<lparr>fk_enforced = False, max_variables = 32766, table = Some
             [\<lparr>rid = 1, parent_id = None, cols = [(''name'', JStr ''a'')]\<rparr>,
              \<lparr>rid = 2, parent_id = Some 0, cols = [(''name'', JStr ''b'')]\<rparr>,
              \<lparr>rid = 3, parent_id = Some 1, cols = [(''name'', JStr ''c'')]\<rparr>,
              \<lparr>rid = 4, parent_id = Some 2, cols = [(''name'', JStr ''d'')]\<rparr>]\<rparr>) \<and>
   handleApi (\<lambda>s. None) no_engine default_config scenario
       \<lparr>http_method = PUT, pathname = ''/api/nodes/4'', body = Some [(''parent_id'', JBool True)]\<rparr> =
     Some (Json 200 [\<lparr>rid = 4, parent_id = Some 1, cols = [(''name'', JStr ''d'')]\<rparr>],
           scenario\<lparr>table := Some
             [\<lparr>rid = 1, parent_id = None, cols = [(''name'', JStr ''a'')]\<rparr>,
              \<lparr>rid = 2, parent_id = Some 1, cols = [(''name'', JStr ''b'')]\<rparr>,
              \<lparr>rid = 3, parent_id = Some 1, cols = [(''name'', JStr ''c'')]\<rparr>,
              \<lparr>rid = 4, parent_id = Some 1, cols = [(''name'', JStr ''d'')]\<rparr>]\<rparr>)"
proof -
  have n: "2 \<le> MAX_SAFE_INTEGER" "4 \<le> MAX_SAFE_INTEGER" by (simp_all add: MAX_SAFE_INTEGER_def)
  have p4: "node_path 4 = ''/api/nodes/4''"
    by (simp add: node_path_def digits_of.simps [of 4] digit_char_def)
  have a: "handleApi (\<lambda>s. None) no_engine default_config scenario
       \<lparr>http_method = PUT, pathname = ''/api/nodes/2'', body = Some [(''parent_id'', JNull)]\<rparr> =
     Some (Error 500, scenario)"
    using handleApi_put [OF n(1), of "\<lambda>s. None" no_engine default_config scenario "[(''parent_id'', JNull)]"]
    by (simp add: node_path_2 handlePut_def update_with_def run_statement_def payload_columns_def
        normalized_values_def payload_get_def normalizeIncomingValue_def sql_update_parent_def
        parent_present_def as_parent_def default_config_def scenario_def Let_def)
  have b: "handleApi (\<lambda>s. None) no_engine default_config (scenario\<lparr>fk_enforced := False\<rparr>)
       \<lparr>http_method = PUT, pathname = ''/api/nodes/2'', body = Some [(''parent_id'', JNull)]\<rparr> =
     Some (Json 200 [\<lparr>rid = 2, parent_id = Some 0, cols = [(''name'', JStr ''b'')]\<rparr>],
           \<lparr>fk_enforced = False, max_variables = 32766, table = Some
             [\<lparr>rid = 1, parent_id = None, cols = [(''name'', JStr ''a'')]\<rparr>,
              \<lparr>rid = 2, parent_id = Some 0, cols = [(''name'', JStr ''b'')]\<rparr>,
              \<lparr>rid = 3, parent_id = Some 1, cols = [(''name'', JStr ''c'')]\<rparr>,
              \<lparr>rid = 4, parent_id = Some 2, cols = [(''name'', JStr ''d'')]\<rparr>]\<rparr>)"
    using handleApi_put [OF n(1), of "\<lambda>s. None" no_engine default_config "scenario\<lparr>fk_enforced := False\<rparr>"
        "[(''parent_id'', JNull)]"]
    by (simp add: node_path_2 handlePut_def update_with_def run_statement_def payload_columns_def
        normalized_values_def payload_get_def normalizeIncomingValue_def sql_update_parent_def
        parent_present_def as_parent_def default_config_def scenario_def Let_def fetch_row_def
        rows_def js_row_def to_double_def round_to_53_def)
  have c: "handleApi (\<lambda>s. None) no_engine default_config scenario
       \<lparr>http_method = PUT, pathname = ''/api/nodes/4'', body = Some [(''parent_id'', JBool True)]\<rparr> =
     Some (Json 200 [\<lparr>rid = 4, parent_id = Some 1, cols = [(''name'', JStr ''d'')]\<rparr>],
           scenario\<lparr>table := Some
             [\<lparr>rid = 1, parent_id = None, cols = [(''name'', JStr ''a'')]\<rparr>,
              \<lparr>rid = 2, parent_id = Some 1, cols = [(''name'', JStr ''b'')]\<rparr>,
              \<lparr>rid = 3, parent_id = Some 1, cols = [(''name'', JStr ''c'')]\<rparr>,
              \<lparr>rid = 4, parent_id = Some 1, cols = [(''name'', JStr ''d'')]\<rparr>]\<rparr>)"
    using handleApi_put [OF n(2), of "\<lambda>s. None" no_engine default_config scenario "[(''parent_id'', JBool True)]"]
    by (simp add: p4 handlePut_def update_with_def run_statement_def payload_columns_def
        normalized_values_def payload_get_def normalizeIncomingValue_def sql_update_parent_def
        parent_present_def as_parent_def default_config_def scenario_def Let_def fetch_row_def
        rows_def js_row_def to_double_def round_to_53_def)
  from a b c show ?thesis by blast
qed

subsection \<open>The subtree query and DELETE\<close>

lemma rows_table: "table d = Some t \<Longrightarrow> rows d = t"
  by (simp add: rows_def)

lemma finite_parent_rel: "finite (parent_rel t)"
proof -
  have "parent_rel t \<subseteq> (\<lambda>r. (rid r, the (parent_id r))) ` set t"
    by (force simp: parent_rel_def)
  then show ?thesis by (rule finite_subset) simp
qed

lemma child_ids_parent_rel: "c \<in> set (child_ids t s) \<longleftrightarrow> (c, s) \<in> parent_rel t"
  by (auto simp: child_ids_def parent_rel_def)

lemma closure_unfold: "closure t s = insert s (\<Union>c \<in> set (child_ids t s). closure t c)"
proof (rule set_eqI)
  fix x
  show "x \<in> closure t s \<longleftrightarrow> x \<in> insert s (\<Union>c \<in> set (child_ids t s). closure t c)"
  proof
    assume "x \<in> closure t s"
    then have "(x, s) \<in> (parent_rel t)\<^sup>*" by (simp add: closure_def)
    then show "x \<in> insert s (\<Union>c \<in> set (child_ids t s). closure t c)"
      by (cases rule: rtrancl.cases) (auto simp: closure_def child_ids_parent_rel)
  next
    assume "x \<in> insert s (\<Union>c \<in> set (child_ids t s). closure t c)"
    then show "x \<in> closure t s"
      by (auto simp: closure_def child_ids_parent_rel intro: rtrancl_into_rtrancl)
  qed
qed

lemma closure_refl: "i \<in> closure t i"
  by (simp add: closure_def)

lemma closure_subset: "closure t i \<subseteq> insert i (rid ` set t)"
proof
  fix x
  assume "x \<in> closure t i"
  then have "(x, i) \<in> (parent_rel t)\<^sup>*" by (simp add: closure_def)
  then show "x \<in> insert i (rid ` set t)"
    by (cases rule: converse_rtranclE) (auto simp: parent_rel_def)
qed

lemma finite_closure: "finite (closure t i)"
  using closure_subset by (rule finite_subset) simp

lemma card_closure_le: "card (closure t i) \<le> Suc (length t)"
proof -
  have "card (closure t i) \<le> card (insert i (rid ` set t))"
    using closure_subset by (rule card_mono [rotated]) simp
  also have "\<dots> \<le> Suc (card (rid ` set t))" by (simp add: card_insert_if)
  also have "\<dots> \<le> Suc (card (set t))" by (simp add: card_image_le)
  also have "\<dots> \<le> Suc (length t)" by (simp add: card_length)
  finally show ?thesis .
qed

lemma closure_descendants: "closure t i = insert i (descendants t i)"
  by (auto simp: closure_def descendants_def dest: rtranclD intro: trancl_into_rtrancl)

lemma single_parent:
  assumes "distinct (map rid t)"
  shows "single_valued (parent_rel t)"
proof (rule single_valuedI)
  fix c p p'
  assume "(c, p) \<in> parent_rel t" "(c, p') \<in> parent_rel t"
  then obtain r r' where r: "r \<in> set t" "rid r = c" "parent_id r = Some p"
    and r': "r' \<in> set t" "rid r' = c" "parent_id r' = Some p'"
    by (auto simp: parent_rel_def)
  from assms have "inj_on rid (set t)" by (simp add: distinct_map)
  with r r' have "r = r'" by (auto dest: inj_onD)
  with r r' show "p = p'" by simp
qed

lemma distinct_child_ids: "distinct (map rid t) \<Longrightarrow> distinct (child_ids t s)"
  unfolding child_ids_def by (rule distinct_map_filter)

lemma child_not_above:
  assumes "acyclic (parent_rel t)" "c \<in> set (child_ids t s)"
  shows "s \<notin> closure t c"
proof
  assume "s \<in> closure t c"
  then have "(s, c) \<in> (parent_rel t)\<^sup>*" by (simp add: closure_def)
  moreover have "(c, s) \<in> parent_rel t" using assms(2) by (simp add: child_ids_parent_rel)
  ultimately have "(s, s) \<in> (parent_rel t)\<^sup>+" by (rule rtrancl_into_trancl1)
  with assms(1) show False by (simp add: acyclic_def)
qed

lemma siblings_not_related:
  assumes ac: "acyclic (parent_rel t)" and sv: "single_valued (parent_rel t)"
    and c: "(c, s) \<in> parent_rel t" and c': "(c', s) \<in> parent_rel t" and ne: "c \<noteq> c'"
  shows "(c, c') \<notin> (parent_rel t)\<^sup>*"
proof
  assume "(c, c') \<in> (parent_rel t)\<^sup>*"
  with ne have "(c, c') \<in> (parent_rel t)\<^sup>+" by (auto dest: rtranclD)
  then obtain z where z: "(c, z) \<in> parent_rel t" "(z, c') \<in> (parent_rel t)\<^sup>*"
    by (auto dest: tranclD)
  from sv z(1) c have "z = s" by (rule single_valuedD)
  with z(2) c' have "(s, s) \<in> (parent_rel t)\<^sup>+" by (auto intro: rtrancl_into_trancl1)
  with ac show False by (simp add: acyclic_def)
qed

lemma siblings_disjoint:
  assumes ac: "acyclic (parent_rel t)" and sv: "single_valued (parent_rel t)"
    and c: "c \<in> set (child_ids t s)" and c': "c' \<in> set (child_ids t s)" and ne: "c \<noteq> c'"
  shows "closure t c \<inter> closure t c' = {}"
proof (rule ccontr)
  assume "closure t c \<inter> closure t c' \<noteq> {}"
  then obtain x where "(x, c) \<in> (parent_rel t)\<^sup>*" "(x, c') \<in> (parent_rel t)\<^sup>*"
    by (auto simp: closure_def)
  with sv have "(c, c') \<in> (parent_rel t)\<^sup>* \<or> (c', c) \<in> (parent_rel t)\<^sup>*"
    by (rule single_valued_confluent)
  moreover have "(c, c') \<notin> (parent_rel t)\<^sup>*"
    using ac sv c c' ne by (intro siblings_not_related) (simp_all add: child_ids_parent_rel)
  moreover have "(c', c) \<notin> (parent_rel t)\<^sup>*"
    using ac sv c c' ne by (intro siblings_not_related) (simp_all add: child_ids_parent_rel)
  ultimately show False by blast
qed

lemma mset_set_UN_list:
  assumes "distinct cs"
    and "\<And>c. c \<in> set cs \<Longrightarrow> finite (A c)"
    and "\<And>c c'. c \<in> set cs \<Longrightarrow> c' \<in> set cs \<Longrightarrow> c \<noteq> c' \<Longrightarrow> A c \<inter> A c' = {}"
  shows "mset_set (\<Union>c \<in> set cs. A c) = sum_list (map (\<lambda>c. mset_set (A c)) cs)"
  using assms
proof (induction cs)
  case Nil
  then show ?case by simp
next
  case (Cons c cs)
  have d: "A c \<inter> (\<Union>c' \<in> set cs. A c') = {}"
  proof -
    have "A c \<inter> A c' = {}" if "c' \<in> set cs" for c'
      using that Cons.prems(1) by (intro Cons.prems(3)) auto
    then show ?thesis by blast
  qed
  have f: "finite (A c)" "finite (\<Union>c' \<in> set cs. A c')"
    using Cons.prems(2) by simp_all
  have "mset_set (\<Union>c' \<in> set (c # cs). A c') = mset_set (A c \<union> (\<Union>c' \<in> set cs. A c'))"
    by simp
  also have "\<dots> = mset_set (A c) + mset_set (\<Union>c' \<in> set cs. A c')"
    using f d by (rule mset_set_Union)
  also have "mset_set (\<Union>c' \<in> set cs. A c') = sum_list (map (\<lambda>c. mset_set (A c)) cs)"
    using Cons.prems by (intro Cons.IH) simp_all
  finally show ?case by simp
qed

lemma closure_mset:
  assumes ac: "acyclic (parent_rel t)" and di: "distinct (map rid t)"
  shows "mset_set (closure t s) =
           add_mset s (sum_list (map (\<lambda>c. mset_set (closure t c)) (child_ids t s)))"
proof -
  let ?U = "\<Union>c \<in> set (child_ids t s). closure t c"
  have "s \<notin> ?U" using child_not_above [OF ac] by blast
  moreover have "finite ?U" by (simp add: finite_closure)
  ultimately have "mset_set (insert s ?U) = add_mset s (mset_set ?U)" by simp
  moreover have "mset_set ?U = sum_list (map (\<lambda>c. mset_set (closure t c)) (child_ids t s))"
    using distinct_child_ids [OF di] finite_closure siblings_disjoint [OF ac single_parent [OF di]]
    by (rule mset_set_UN_list)
  ultimately show ?thesis using closure_unfold [of t s] by simp
qed

lemma subtree_Nil: "subtree t [] out = Some out"
  by (subst subtree.simps) simp

lemma subtree_Cons: "subtree t (s # rest) out = subtree t (rest @ child_ids t s) (out @ [s])"
  by (subst subtree.simps) simp

lemma subtree_returns:
  assumes ac: "acyclic (parent_rel t)" and di: "distinct (map rid t)"
  shows "\<exists>res. subtree t q out = Some res \<and>
           mset res = mset out + sum_list (map (\<lambda>s. mset_set (closure t s)) q)"
proof -
  have "wf (parent_rel t)"
    using finite_parent_rel ac by (rule finite_acyclic_wf)
  then have "wf (mult (parent_rel t))" by (rule wf_mult)
  then show ?thesis
  proof (induction "mset q" arbitrary: q out rule: wf_induct_rule)
    case less
    show ?case
    proof (cases q)
      case Nil
      then show ?thesis by (simp add: subtree_Nil)
    next
      case (Cons s rest)
      have "(mset rest + mset (child_ids t s), mset rest + {#s#}) \<in> mult (parent_rel t)"
        by (rule one_step_implies_mult) (auto simp: child_ids_parent_rel)
      then have "(mset (rest @ child_ids t s), mset q) \<in> mult (parent_rel t)"
        using Cons by simp
      from less [OF this, of "out @ [s]"]
      obtain res where r: "subtree t (rest @ child_ids t s) (out @ [s]) = Some res"
        and s: "mset res = mset (out @ [s]) +
                  sum_list (map (\<lambda>x. mset_set (closure t x)) (rest @ child_ids t s))"
        by blast
      have "mset res = mset out + sum_list (map (\<lambda>x. mset_set (closure t x)) q)"
        using s Cons closure_mset [OF ac di, of s] by simp
      with r Cons show ?thesis by (simp add: subtree_Cons)
    qed
  qed
qed

lemma start_of_query:
  assumes "distinct (map rid t)"
  shows "map rid (filter (\<lambda>r. rid r = i) t) = (if list_ex (\<lambda>r. rid r = i) t then [i] else [])"
proof (cases "list_ex (\<lambda>r. rid r = i) t")
  case False
  then show ?thesis by (auto simp: list_ex_iff filter_empty_conv)
next
  case True
  let ?q = "map rid (filter (\<lambda>r. rid r = i) t)"
  have s: "set ?q = {i}" using True by (auto simp: list_ex_iff)
  have d: "distinct ?q" using assms by (rule distinct_map_filter)
  have "?q = [i]"
  proof (cases ?q)
    case Nil
    with s show ?thesis by simp
  next
    case (Cons a q')
    with s d have "a = i" "set q' \<subseteq> {i}" "a \<notin> set q'" by auto
    then have "q' = []" by (cases q') auto
    with Cons \<open>a = i\<close> show ?thesis by simp
  qed
  with True show ?thesis by simp
qed

lemma sql_delete_closure:
  assumes t: "table d = Some t" and ids: "set ids = closure t i"
  shows "sql_delete d ids = d\<lparr>table := Some (filter (\<lambda>r. rid r \<notin> closure t i) t)\<rparr>"
proof -
  let ?keep = "filter (\<lambda>r. rid r \<notin> closure t i) t"
  have c: "rid r \<in> closure t i" if "r \<in> set t" "parent_id r = Some p" "p \<in> closure t i" for r p
    using that unfolding closure_def parent_rel_def by (auto intro: converse_rtrancl_into_rtrancl)
  have h: "map (\<lambda>r. if fk_enforced d \<and>
                     (case parent_id r of
                        None \<Rightarrow> False
                      | Some p \<Rightarrow> p \<in> closure t i \<and> list_ex (\<lambda>q. rid q = p) t)
                  then r\<lparr>parent_id := None\<rparr> else r) ?keep = ?keep"
    by (rule map_idI) (auto split: option.splits dest: c)
  show ?thesis unfolding sql_delete_def rows_table [OF t] ids h ..
qed

lemma delete_closure:
  assumes t: "table d = Some t"
    and ac: "acyclic (parent_rel t)"
    and di: "distinct (map rid t)"
    and safe: "\<forall>r \<in> set t. \<bar>rid r\<bar> \<le> int MAX_SAFE_INTEGER"
    and lim: "card (closure t i) \<le> max_variables d"
  shows "handleDelete d i =
           Some (if list_ex (\<lambda>r. rid r = i) t
                 then (NoContent, d\<lparr>table := Some (filter (\<lambda>r. rid r \<notin> closure t i) t)\<rparr>)
                 else (Error 404, d))"
proof (cases "list_ex (\<lambda>r. rid r = i) t")
  case False
  then show ?thesis
    by (simp add: handleDelete_def t start_of_query [OF di] subtree_Nil)
next
  case True
  from subtree_returns [OF ac di, of "[i]" "[]"]
  obtain res where r: "subtree t [i] [] = Some res" and m: "mset res = mset_set (closure t i)"
    by auto
  from m have "set_mset (mset res) = closure t i" by (simp add: finite_closure)
  then have s: "set res = closure t i" by simp
  from m have "size (mset res) = card (closure t i)" by simp
  then have l: "length res = card (closure t i)" by simp
  have "\<bar>x\<bar> \<le> int MAX_SAFE_INTEGER" if "x \<in> set res" for x
  proof -
    from that s closure_subset have "x \<in> insert i (rid ` set t)" by blast
    moreover from True have "i \<in> rid ` set t" by (auto simp: list_ex_iff)
    ultimately show ?thesis using safe by auto
  qed
  then have d: "map to_double res = res"
    by (intro map_idI to_double_safe)
  have n: "res \<noteq> []" using s closure_refl [of i t] by auto
  show ?thesis
    using True r d n l lim
    by (simp add: handleDelete_def t start_of_query [OF di] sql_delete_closure [OF t s])
qed

text \<open>
  C4 (as amended). On a store whose parent relation is acyclic, whose ids are distinct and
  at most \<open>2^53 - 1\<close> in absolute value, \<open>DELETE /api/nodes/n\<close> for \<open>n\<close> at most \<open>2^53 - 1\<close>,
  where \<open>n\<close> and its descendants are no more than the engine allows parameters, answers 204
  for an existing \<open>n\<close> and leaves exactly the rows whose id is outside the set of \<open>n\<close> and its
  descendants, each as it was and in the same order; for \<open>n\<close> that is no row it answers 404
  and leaves the store as it was.
\<close>

theorem delete_removes_closure:
  assumes "table d = Some t"
    and "acyclic (parent_rel t)"
    and "distinct (map rid t)"
    and "\<forall>r \<in> set t. \<bar>rid r\<bar> \<le> int MAX_SAFE_INTEGER"
    and "n \<le> MAX_SAFE_INTEGER"
    and "card (insert (int n) (descendants t (int n))) \<le> max_variables d"
  shows "handleApi sn eng cfg d \<lparr>http_method = DELETE, pathname = node_path n, body = b\<rparr> =
           Some (if list_ex (\<lambda>r. rid r = int n) t
                 then (NoContent,
                       d\<lparr>table := Some (filter (\<lambda>r. rid r \<notin> insert (int n) (descendants t (int n))) t)\<rparr>)
                 else (Error 404, d))"
proof -
  have "card (closure t (int n)) \<le> max_variables d"
    using assms(6) by (simp only: closure_descendants)
  from delete_closure [OF assms(1-4) this] show ?thesis
    by (simp only: handleApi_delete [OF assms(5)] closure_descendants)
qed

lemma acyclic_scenario: "acyclic (parent_rel (rows scenario))"
  by (rule acyclicI_order [where f = id]) (auto simp: parent_rel_def scenario_def rows_def)

lemma table_scenario: "table scenario = Some (rows scenario)"
  by (simp add: scenario_def rows_def)

lemma delete_scenario_value: "handleDelete scenario 2 =
     Some (NoContent, scenario\<lparr>table := Some
       [\<lparr>rid = 1, parent_id = None, cols = [(''name'', JStr ''a'')]\<rparr>,
        \<lparr>rid = 3, parent_id = Some 1, cols = [(''name'', JStr ''c'')]\<rparr>]\<rparr>)"
  by (simp add: handleDelete_def scenario_def subtree_Nil subtree_Cons child_ids_def sql_delete_def
      rows_def to_double_def round_to_53_def)

theorem delete_removes_closure_witness:
  "table scenario = Some (rows scenario) \<and>
   acyclic (parent_rel (rows scenario)) \<and>
   distinct (map rid (rows scenario)) \<and>
   list_all (\<lambda>r. \<bar>rid r\<bar> \<le> int MAX_SAFE_INTEGER) (rows scenario) \<and>
   2 \<le> MAX_SAFE_INTEGER \<and> 7 \<le> MAX_SAFE_INTEGER \<and>
   card (insert (int 2) (descendants (rows scenario) (int 2))) \<le> max_variables scenario \<and>
   card (insert (int 7) (descendants (rows scenario) (int 7))) \<le> max_variables scenario \<and>
   node_path 2 = ''/api/nodes/2'' \<and> node_path 7 = ''/api/nodes/7'' \<and>
   handleApi (\<lambda>s. None) no_engine default_config scenario
       \<lparr>http_method = DELETE, pathname = node_path 2, body = None\<rparr> =
     Some (NoContent, scenario\<lparr>table := Some
       [\<lparr>rid = 1, parent_id = None, cols = [(''name'', JStr ''a'')]\<rparr>,
        \<lparr>rid = 3, parent_id = Some 1, cols = [(''name'', JStr ''c'')]\<rparr>]\<rparr>) \<and>
   filter (\<lambda>r. rid r \<notin> insert (int 2) (descendants (rows scenario) (int 2))) (rows scenario) =
       [\<lparr>rid = 1, parent_id = None, cols = [(''name'', JStr ''a'')]\<rparr>,
        \<lparr>rid = 3, parent_id = Some 1, cols = [(''name'', JStr ''c'')]\<rparr>] \<and>
   handleApi (\<lambda>s. None) no_engine default_config scenario
       \<lparr>http_method = DELETE, pathname = node_path 7, body = None\<rparr> =
     Some (Error 404, scenario)"
proof -
  have di: "distinct (map rid (rows scenario))"
    by (simp add: scenario_def rows_def)
  have safe: "\<forall>r \<in> set (rows scenario). \<bar>rid r\<bar> \<le> int MAX_SAFE_INTEGER"
    by (simp add: scenario_def rows_def MAX_SAFE_INTEGER_def)
  have n: "2 \<le> MAX_SAFE_INTEGER" "7 \<le> MAX_SAFE_INTEGER"
    by (simp_all add: MAX_SAFE_INTEGER_def)
  have "card (closure (rows scenario) i) \<le> max_variables scenario" for i
    using card_closure_le [of "rows scenario" i] by (simp add: scenario_def rows_def)
  then have lim: "card (insert (int 2) (descendants (rows scenario) (int 2))) \<le> max_variables scenario"
      "card (insert (int 7) (descendants (rows scenario) (int 7))) \<le> max_variables scenario"
    by (simp_all only: closure_descendants)
  have p: "node_path 2 = ''/api/nodes/2''" "node_path 7 = ''/api/nodes/7''"
    by (simp_all add: node_path_def digits_of.simps [of 2] digits_of.simps [of 7] digit_char_def)
  have ex: "list_ex (\<lambda>r. rid r = int 2) (rows scenario)" "\<not> list_ex (\<lambda>r. rid r = int 7) (rows scenario)"
    by (simp_all add: scenario_def rows_def)
  have a: "handleApi (\<lambda>s. None) no_engine default_config scenario
       \<lparr>http_method = DELETE, pathname = node_path 2, body = None\<rparr> =
     Some (NoContent, scenario\<lparr>table := Some
       (filter (\<lambda>r. rid r \<notin> insert (int 2) (descendants (rows scenario) (int 2))) (rows scenario))\<rparr>)"
    using delete_removes_closure [OF table_scenario acyclic_scenario di safe n(1) lim(1)] ex(1)
    by simp
  have b: "handleApi (\<lambda>s. None) no_engine default_config scenario
       \<lparr>http_method = DELETE, pathname = node_path 7, body = None\<rparr> = Some (Error 404, scenario)"
    using delete_removes_closure [OF table_scenario acyclic_scenario di safe n(2) lim(2)] ex(2)
    by simp
  have "handleApi (\<lambda>s. None) no_engine default_config scenario
       \<lparr>http_method = DELETE, pathname = node_path 2, body = None\<rparr> = handleDelete scenario 2"
    using handleApi_delete [OF n(1)] by simp
  with a delete_scenario_value
  have "table (scenario\<lparr>table := Some
       (filter (\<lambda>r. rid r \<notin> insert (int 2) (descendants (rows scenario) (int 2))) (rows scenario))\<rparr>) =
        table (scenario\<lparr>table := Some
       [\<lparr>rid = 1, parent_id = None, cols = [(''name'', JStr ''a'')]\<rparr>,
        \<lparr>rid = 3, parent_id = Some 1, cols = [(''name'', JStr ''c'')]\<rparr>]\<rparr>)"
    by simp
  then have c: "filter (\<lambda>r. rid r \<notin> insert (int 2) (descendants (rows scenario) (int 2))) (rows scenario) =
       [\<lparr>rid = 1, parent_id = None, cols = [(''name'', JStr ''a'')]\<rparr>,
        \<lparr>rid = 3, parent_id = Some 1, cols = [(''name'', JStr ''c'')]\<rparr>]"
    by simp
  from a c have a': "handleApi (\<lambda>s. None) no_engine default_config scenario
       \<lparr>http_method = DELETE, pathname = node_path 2, body = None\<rparr> =
     Some (NoContent, scenario\<lparr>table := Some
       [\<lparr>rid = 1, parent_id = None, cols = [(''name'', JStr ''a'')]\<rparr>,
        \<lparr>rid = 3, parent_id = Some 1, cols = [(''name'', JStr ''c'')]\<rparr>]\<rparr>)"
    by simp
  from safe have safe': "list_all (\<lambda>r. \<bar>rid r\<bar> \<le> int MAX_SAFE_INTEGER) (rows scenario)"
    by (simp only: list_all_iff)
  from table_scenario acyclic_scenario di safe' n lim p a' c b show ?thesis by blast
qed

text \<open>
  C4 (as stated) fails outside the range of ids that a path and a double can carry. On a
  store that holds the parentless rows \<open>2^53\<close>, \<open>2^53 + 1\<close> and \<open>-3\<close>,
  \<open>DELETE /api/nodes/9007199254740993\<close> names an existing node without descendants, answers
  204, removes the row \<open>9007199254740992\<close> and leaves the row \<open>9007199254740993\<close>; and
  \<open>DELETE /api/nodes/-3\<close> names an existing node and is answered 404.
\<close>

theorem delete_rounds_id_counterexample:
  "acyclic (parent_rel (rows big_ids)) \<and>
   list_ex (\<lambda>r. rid r = 9007199254740993) (rows big_ids) \<and>
   handleApi (\<lambda>s. None) no_engine default_config big_ids
       \<lparr>http_method = DELETE, pathname = ''/api/nodes/9007199254740993'', body = None\<rparr> =
     Some (NoContent, big_ids\<lparr>table := Some
       [\<lparr>rid = 9007199254740993, parent_id = None, cols = []\<rparr>,
        \<lparr>rid = - 3, parent_id = None, cols = []\<rparr>]\<rparr>) \<and>
   list_ex (\<lambda>r. rid r = - 3) (rows big_ids) \<and>
   handleApi (\<lambda>s. None) no_engine default_config big_ids
       \<lparr>http_method = DELETE, pathname = ''/api/nodes/-3'', body = None\<rparr> =
     Some (Error 404, big_ids)"
proof -
  have n: "list_ex (\<lambda>r. rid r = - 3) (rows big_ids)"
    by (simp add: big_ids_def rows_def)
  have m3: "match_id ''/api/nodes/-3'' = None"
    by (simp add: is_digit_def)
  have e: "handleApi (\<lambda>s. None) no_engine default_config big_ids
       \<lparr>http_method = DELETE, pathname = ''/api/nodes/-3'', body = None\<rparr> =
     Some (Error 404, big_ids)"
    by (simp add: handleApi_def m3 del: match_id.simps)
  have "parent_rel (rows big_ids) = {}"
    by (simp add: parent_rel_def big_ids_def rows_def)
  then have a: "acyclic (parent_rel (rows big_ids))" by (simp add: acyclic_def)
  have b: "list_ex (\<lambda>r. rid r = 9007199254740993) (rows big_ids)"
    by (simp add: big_ids_def rows_def)
  have d: "decimal_value ''9007199254740993'' = 9007199254740993"
    by (simp add: decimal_value_def digit_value_def)
  have bl: "bitlen 9007199254740993 = 54" "bitlen 9007199254740992 = 54"
    by (simp_all add: bitlen.simps)
  have r: "to_double 9007199254740993 = 9007199254740992"
    "to_double 9007199254740992 = 9007199254740992"
    by (simp_all add: to_double_def round_to_53_def bl Let_def)
  have i: "integer_id ''9007199254740993'' = Some 9007199254740992"
    by (simp add: integer_id_def d r)
  have m: "match_id ''/api/nodes/9007199254740993'' = Some ''9007199254740993''"
    by (simp add: is_digit_def)
  have h: "handleApi (\<lambda>s. None) no_engine default_config big_ids
       \<lparr>http_method = DELETE, pathname = ''/api/nodes/9007199254740993'', body = None\<rparr> =
     handleDelete big_ids 9007199254740992"
    by (simp add: handleApi_def m i del: match_id.simps)
  have c: "handleApi (\<lambda>s. None) no_engine default_config big_ids
       \<lparr>http_method = DELETE, pathname = ''/api/nodes/9007199254740993'', body = None\<rparr> =
     Some (NoContent, big_ids\<lparr>table := Some
       [\<lparr>rid = 9007199254740993, parent_id = None, cols = []\<rparr>,
        \<lparr>rid = - 3, parent_id = None, cols = []\<rparr>]\<rparr>)"
    unfolding h
    by (simp add: handleDelete_def big_ids_def subtree_Nil subtree_Cons
        child_ids_def sql_delete_def rows_def r)
  from a b c n e show ?thesis by blast
qed

lemma subtree_never_empties:
  assumes run: "subtree t q out = Some y"
    and closed: "\<And>x. x \<in> C \<Longrightarrow> \<exists>c \<in> set (child_ids t x). c \<in> C"
  shows "set q \<inter> C = {}"
proof -
  have "t = t \<longrightarrow> set q \<inter> C = {}"
  proof (rule subtree.raw_induct [where P = "\<lambda>t' q out y. t' = t \<longrightarrow> set q \<inter> C = {}", OF _ run])
  fix subtree' t' q out y
  assume IH: "\<And>t' q out y. subtree' t' q out = Some y \<Longrightarrow> t' = t \<longrightarrow> set q \<inter> C = {}"
    and step: "(case q of [] \<Rightarrow> Some out | s # rest \<Rightarrow> subtree' t' (rest @ child_ids t' s) (out @ [s])) = Some y"
  show "t' = t \<longrightarrow> set q \<inter> C = {}"
  proof
    assume t: "t' = t"
    show "set q \<inter> C = {}"
    proof (cases q)
      case Nil
      then show ?thesis by simp
    next
      case (Cons s rest)
      with step t have "subtree' t (rest @ child_ids t s) (out @ [s]) = Some y" by simp
      from IH [OF this] have d: "set (rest @ child_ids t s) \<inter> C = {}" by simp
      have "s \<notin> C"
      proof
        assume "s \<in> C"
        from closed [OF this] d show False by auto
      qed
      with d Cons show ?thesis by auto
    qed
  qed
  qed
  then show ?thesis by simp
qed

lemma cycle_closed:
  assumes cyc: "(c, c) \<in> (parent_rel t)\<^sup>+"
    and x: "x \<in> {x. (c, x) \<in> (parent_rel t)\<^sup>*}"
  shows "\<exists>y \<in> set (child_ids t x). y \<in> {x. (c, x) \<in> (parent_rel t)\<^sup>*}"
proof -
  have "(c, x) \<in> (parent_rel t)\<^sup>+"
  proof (cases "c = x")
    case True
    with cyc show ?thesis by simp
  next
    case False
    with x show ?thesis by (auto dest: rtranclD)
  qed
  then obtain y where "(c, y) \<in> (parent_rel t)\<^sup>*" "(y, x) \<in> parent_rel t"
    by (auto dest: tranclD2)
  then show ?thesis by (auto simp: child_ids_parent_rel)
qed

lemma subtree_on_cycle:
  assumes cyc: "(c, c) \<in> (parent_rel t)\<^sup>+"
    and reach: "c \<in> closure t i"
    and row: "list_ex (\<lambda>r. rid r = i) t"
  shows "subtree t (map rid (filter (\<lambda>r. rid r = i) t)) [] = None"
proof -
  let ?q = "map rid (filter (\<lambda>r. rid r = i) t)"
  let ?C = "{x. (c, x) \<in> (parent_rel t)\<^sup>*}"
  have i: "i \<in> set ?q" using row by (auto simp: list_ex_iff)
  have iC: "i \<in> ?C" using reach by (simp add: closure_def)
  show ?thesis
  proof (cases "subtree t ?q []")
    case None
    then show ?thesis .
  next
    case (Some y)
    have "set ?q \<inter> ?C = {}"
      using Some by (rule subtree_never_empties) (rule cycle_closed [OF cyc])
    with i iC show ?thesis by blast
  qed
qed

lemma table_of_row: "list_ex P (rows d) \<Longrightarrow> table d = Some (rows d)"
  by (cases "table d") (simp_all add: rows_def)

text \<open>
  C5. The subtree query keeps no record of the ids it has produced. Whenever a cycle of the
  parent relation lies in the descendant closure of an existing id \<open>i\<close>, the queue of the
  query for \<open>i\<close> never empties and \<open>DELETE /api/nodes/i\<close> never answers.
\<close>

theorem delete_on_cycle_never_returns:
  assumes cyc: "(c, c) \<in> (parent_rel (rows d))\<^sup>+"
    and reach: "c \<in> closure (rows d) i"
    and row: "list_ex (\<lambda>r. rid r = i) (rows d)"
  shows "handleDelete d i = None"
  using subtree_on_cycle [OF assms] table_of_row [OF row]
  by (simp add: handleDelete_def)

lemma selfparent_cycle: "(3, 3) \<in> (parent_rel (rows selfparent))\<^sup>+"
proof -
  have "(3, 3) \<in> parent_rel (rows selfparent)" by (simp add: parent_rel_def selfparent_def rows_def)
  then show ?thesis by (rule r_into_trancl)
qed

lemma selfparent_reachable:
  "rows (snd (handlePut (\<lambda>s. None) no_engine default_config scenario 3 [(''parent_id'', JNum 3)])) =
     [\<lparr>rid = 1, parent_id = None, cols = [(''name'', JStr ''a'')]\<rparr>,
      \<lparr>rid = 2, parent_id = Some 1, cols = [(''name'', JStr ''b'')]\<rparr>,
      \<lparr>rid = 3, parent_id = Some 3, cols = [(''name'', JStr ''c'')]\<rparr>,
      \<lparr>rid = 4, parent_id = Some 2, cols = [(''name'', JStr ''d'')]\<rparr>]"
  by (simp add: handlePut_def update_with_def run_statement_def payload_columns_def
      normalized_values_def payload_get_def normalizeIncomingValue_def sql_update_parent_def
      parent_present_def as_parent_def default_config_def scenario_def Let_def rows_def)

theorem delete_on_cycle_never_returns_witness:
  "(3, 3) \<in> (parent_rel (rows selfparent))\<^sup>+ \<and> 3 \<in> closure (rows selfparent) 3 \<and>
   list_ex (\<lambda>r. rid r = 3) (rows selfparent) \<and> handleDelete selfparent 3 = None \<and>
   handleDelete (snd (handlePut (\<lambda>s. None) no_engine default_config scenario 3 [(''parent_id'', JNum 3)])) 3 = None"
proof -
  let ?d = "snd (handlePut (\<lambda>s. None) no_engine default_config scenario 3 [(''parent_id'', JNum 3)])"
  have r: "list_ex (\<lambda>r. rid r = 3) (rows selfparent)" by (simp add: selfparent_def rows_def)
  have a: "handleDelete selfparent 3 = None"
    using selfparent_cycle closure_refl r by (rule delete_on_cycle_never_returns)
  have "(3, 3) \<in> parent_rel (rows ?d)" unfolding selfparent_reachable by (simp add: parent_rel_def)
  then have c: "(3, 3) \<in> (parent_rel (rows ?d))\<^sup>+" by (rule r_into_trancl)
  have r': "list_ex (\<lambda>r. rid r = 3) (rows ?d)" unfolding selfparent_reachable by simp
  have b: "handleDelete ?d 3 = None"
    using c closure_refl r' by (rule delete_on_cycle_never_returns)
  from selfparent_cycle closure_refl [of 3 "rows selfparent"] r a b show ?thesis by blast
qed

subsection \<open>The closure traversals of the client\<close>

lemma each_child_Some:
  "each_child rec cs acc = Some y \<Longrightarrow> c \<in> set cs \<Longrightarrow> \<exists>sub. rec (rid c) = Some sub"
proof (induction cs arbitrary: acc)
  case Nil
  then show ?case by simp
next
  case (Cons x xs)
  from Cons.prems(1) obtain sub where s: "rec (rid x) = Some sub"
    and r: "each_child rec xs (acc @ [rid x] @ sub) = Some y"
    by (auto split: Option.bind_splits)
  show ?case
  proof (cases "c = x")
    case True
    with s show ?thesis by blast
  next
    case False
    with Cons.prems(2) have "c \<in> set xs" by simp
    from Cons.IH [OF r this] show ?thesis .
  qed
qed

lemma getDescendantIds_no_result_inside:
  assumes run: "getDescendantIds data i = Some y"
    and rows: "\<And>x. x \<in> C \<Longrightarrow> \<exists>r \<in> set data. rid r = x"
    and closed: "\<And>x. x \<in> C \<Longrightarrow> \<exists>c \<in> set (child_ids data x). c \<in> C"
  shows "i \<notin> C"
proof -
  have "data = data \<longrightarrow> i \<notin> C"
  proof (rule getDescendantIds.raw_induct [where P = "\<lambda>data' i y. data' = data \<longrightarrow> i \<notin> C", OF _ run])
    fix rec data' i y
    assume IH: "\<And>data' i y. rec data' i = Some y \<Longrightarrow> data' = data \<longrightarrow> i \<notin> C"
      and step: "(case find (\<lambda>n. rid n = i) data' of None \<Rightarrow> Some []
          | Some node \<Rightarrow> each_child (\<lambda>i. rec data' i) (filter (\<lambda>n. parent_id n = Some i) data') []) = Some y"
    show "data' = data \<longrightarrow> i \<notin> C"
    proof (intro impI notI)
      assume d: "data' = data" and i: "i \<in> C"
      from rows [OF i] have "find (\<lambda>n. rid n = i) data \<noteq> None"
        by (auto simp: find_None_iff)
      with step d have e: "each_child (\<lambda>i. rec data i) (filter (\<lambda>n. parent_id n = Some i) data) [] = Some y"
        by auto
      from closed [OF i] obtain r where r: "r \<in> set (filter (\<lambda>n. parent_id n = Some i) data)"
        and c: "rid r \<in> C"
        by (auto simp: child_ids_def)
      from each_child_Some [OF e r] obtain sub where "rec data (rid r) = Some sub" by blast
      from IH [OF this] c show False by simp
    qed
  qed
  then show ?thesis by simp
qed

lemma findParent_length:
  "length (findParent data visited ancestors i) \<le> length ancestors + card (rid ` set data - visited)"
proof (induction data visited ancestors i rule: findParent.induct)
  case (1 data visited ancestors i)
  show ?case
  proof (cases "i \<in> visited")
    case True
    then show ?thesis by simp
  next
    case nv: False
    show ?thesis
    proof (cases "find (\<lambda>n. rid n = i) data")
      case None
      with nv show ?thesis by simp
    next
      case (Some node)
      show ?thesis
      proof (cases "parent_id node")
        case None
        with nv Some show ?thesis by simp
      next
        case p: (Some p)
        show ?thesis
        proof (cases "p = 0")
          case True
          with nv Some p show ?thesis by simp
        next
          case False
          from Some have "i \<in> rid ` set data" by (auto simp: find_Some_iff)
          with nv have "rid ` set data - insert i visited \<subset> rid ` set data - visited" by auto
          then have c: "card (rid ` set data - insert i visited) < card (rid ` set data - visited)"
            by (intro psubset_card_mono) auto
          from "1.IH" [OF nv Some p False]
          have "length (findParent data (insert i visited) (ancestors @ [p]) p)
                  \<le> length (ancestors @ [p]) + card (rid ` set data - insert i visited)" .
          with c nv Some p False show ?thesis by simp
        qed
      qed
    qed
  qed
qed

lemma getAncestorIds_length: "length (getAncestorIds data i) \<le> length data"
proof -
  have "length (getAncestorIds data i) \<le> card (rid ` set data)"
    using findParent_length [of data "{}" "[]" i] by (simp add: getAncestorIds_def)
  also have "\<dots> \<le> card (set data)" by (rule card_image_le) simp
  also have "\<dots> \<le> length data" by (rule card_length)
  finally show ?thesis .
qed

text \<open>
  C7. \<open>getAncestorIds\<close> is guarded by its visited set: it returns on every data set, with at
  most as many ids as the data has rows. \<open>getDescendantIds\<close> has no visited set: whenever a
  cycle of the parent relation lies in the descendant closure of an existing id \<open>i\<close>, the
  call for \<open>i\<close> recurses without end and returns nothing.
\<close>

theorem getDescendantIds_on_cycle_no_result:
  assumes cyc: "(c, c) \<in> (parent_rel data)\<^sup>+"
    and reach: "c \<in> closure data i"
    and row: "list_ex (\<lambda>r. rid r = i) data"
  shows "getDescendantIds data i = None \<and> length (getAncestorIds data i) \<le> length data"
proof (cases "getDescendantIds data i")
  case None
  with getAncestorIds_length show ?thesis by simp
next
  case (Some y)
  let ?R = "parent_rel data"
  let ?C = "{x. (c, x) \<in> ?R\<^sup>* \<and> (x, i) \<in> ?R\<^sup>*}"
  have "i \<notin> ?C"
    using Some
  proof (rule getDescendantIds_no_result_inside)
    fix x
    assume x: "x \<in> ?C"
    show "\<exists>r \<in> set data. rid r = x"
    proof (cases "x = i")
      case True
      with row show ?thesis by (auto simp: list_ex_iff)
    next
      case False
      with x have "(x, i) \<in> ?R\<^sup>+" by (auto dest: rtranclD)
      then obtain z where "(x, z) \<in> ?R" by (auto dest: tranclD)
      then show ?thesis by (auto simp: parent_rel_def)
    qed
    have "(c, x) \<in> ?R\<^sup>+"
    proof (cases "c = x")
      case True
      with cyc show ?thesis by simp
    next
      case False
      with x show ?thesis by (auto dest: rtranclD)
    qed
    then obtain y where y: "(c, y) \<in> ?R\<^sup>*" "(y, x) \<in> ?R"
      by (auto dest: tranclD2)
    with x have "(y, i) \<in> ?R\<^sup>*" by (auto intro: converse_rtrancl_into_rtrancl)
    with y show "\<exists>c' \<in> set (child_ids data x). c' \<in> ?C"
      by (auto simp: child_ids_parent_rel)
  qed
  moreover have "i \<in> ?C" using reach by (simp add: closure_def)
  ultimately show ?thesis by blast
qed

lemma cyclic_data_cycle: "(1, 1) \<in> (parent_rel cyclic_data)\<^sup>+"
proof -
  have "(1, 1) \<in> parent_rel cyclic_data" by (simp add: parent_rel_def cyclic_data_def)
  then show ?thesis by (rule r_into_trancl)
qed

theorem getDescendantIds_on_cycle_no_result_witness:
  "(1, 1) \<in> (parent_rel cyclic_data)\<^sup>+ \<and> 1 \<in> closure cyclic_data 1 \<and>
   list_ex (\<lambda>r. rid r = 1) cyclic_data \<and>
   getDescendantIds cyclic_data 1 = None \<and> getAncestorIds cyclic_data 1 = [1]"
proof -
  have r: "list_ex (\<lambda>r. rid r = 1) cyclic_data" by (simp add: cyclic_data_def)
  have "getDescendantIds cyclic_data 1 = None"
    using getDescendantIds_on_cycle_no_result [OF cyclic_data_cycle closure_refl r] by simp
  moreover have "getAncestorIds cyclic_data 1 = [1]"
    by (simp add: getAncestorIds_def cyclic_data_def)
  ultimately show ?thesis using cyclic_data_cycle closure_refl [of 1 cyclic_data] r by blast
qed

subsection \<open>Updating the parent (PUT) and the forest\<close>
















lemma rid_set_parent: "map rid (set_parent a b t) = map rid t"
  by (simp add: set_parent_def)

lemma set_rid_set_parent: "rid ` set (set_parent a b t) = rid ` set t"
  by (simp only: set_map [symmetric] rid_set_parent)

lemma list_ex_rid: "list_ex (\<lambda>q. rid q = p) u \<longleftrightarrow> p \<in> rid ` set u"
  by (auto simp: list_ex_iff)

lemma list_ex_rid_set_parent: "list_ex (\<lambda>q. rid q = p) (set_parent a b t) = list_ex (\<lambda>q. rid q = p) t"
  unfolding list_ex_rid set_rid_set_parent ..

lemma parent_id_set_parent:
  assumes "r \<in> set (set_parent a b t)" and "rid r = a"
  shows "parent_id r = Some b"
proof -
  from assms(1) have "r \<in> (\<lambda>x. if rid x = a then x\<lparr>parent_id := Some b\<rparr> else x) ` set t"
    by (simp only: set_parent_def set_map)
  then obtain x where x: "r = (if rid x = a then x\<lparr>parent_id := Some b\<rparr> else x)"
    by blast
  show ?thesis
  proof (cases "rid x = a")
    case True
    with x have "r = x\<lparr>parent_id := Some b\<rparr>" by simp
    then show ?thesis by simp
  next
    case False
    with x assms(2) show ?thesis by simp
  qed
qed

lemma set_parent_edge:
  assumes "(y, z) \<in> parent_rel t" and "y \<noteq> a"
  shows "(y, z) \<in> parent_rel (set_parent a b t)"
proof -
  from assms(1) obtain r where r: "r \<in> set t" "rid r = y" "parent_id r = Some z"
    by (auto simp: parent_rel_def)
  with assms(2) have "r \<in> set (set_parent a b t)"
    by (force simp: set_parent_def)
  with r show ?thesis by (auto simp: parent_rel_def)
qed

lemma set_parent_path:
  assumes "(b, a) \<in> (parent_rel t)\<^sup>*"
  shows "(b, a) \<in> (parent_rel (set_parent a b' t))\<^sup>*"
  using assms
proof (induction rule: converse_rtrancl_induct)
  case base
  show ?case by simp
next
  case (step y z)
  show ?case
  proof (cases "y = a")
    case True
    then show ?thesis by simp
  next
    case False
    with step.hyps(1) have "(y, z) \<in> parent_rel (set_parent a b' t)" by (rule set_parent_edge)
    with step.IH show ?thesis by (rule converse_rtrancl_into_rtrancl [rotated])
  qed
qed

lemma set_parent_new_edge:
  assumes "list_ex (\<lambda>r. rid r = a) t"
  shows "(a, b) \<in> parent_rel (set_parent a b t)"
proof -
  from assms obtain x where x: "x \<in> set t" "rid x = a"
    by (auto simp: list_ex_iff)
  then have "x\<lparr>parent_id := Some b\<rparr> \<in> set (set_parent a b t)"
    by (force simp: set_parent_def)
  with x(2) have "\<exists>r \<in> set (set_parent a b t). rid r = a \<and> parent_id r = Some b"
    by (intro bexI [of _ "x\<lparr>parent_id := Some b\<rparr>"]) simp_all
  then show ?thesis by (simp add: parent_rel_def)
qed

lemma set_parent_cycle:
  assumes "list_ex (\<lambda>r. rid r = a) t" and "b \<in> closure t a"
  shows "(a, a) \<in> (parent_rel (set_parent a b t))\<^sup>+"
proof -
  from assms(2) have "(b, a) \<in> (parent_rel t)\<^sup>*" by (simp add: closure_def)
  then have "(b, a) \<in> (parent_rel (set_parent a b t))\<^sup>*" by (rule set_parent_path)
  with set_parent_new_edge [OF assms(1)] show ?thesis by (rule rtrancl_into_trancl2)
qed

lemma delete_after_set_parent:
  assumes "list_ex (\<lambda>r. rid r = a) t" and "b \<in> closure t a"
  shows "handleDelete (d\<lparr>table := Some (set_parent a b t)\<rparr>) a = None"
proof -
  have "list_ex (\<lambda>r. rid r = a) (set_parent a b t)"
    using assms(1) by (simp only: list_ex_rid_set_parent)
  with set_parent_cycle [OF assms] closure_refl
  have "subtree (set_parent a b t) (map rid (filter (\<lambda>r. rid r = a) (set_parent a b t))) [] = None"
    by (rule subtree_on_cycle)
  then show ?thesis by (simp add: handleDelete_def)
qed

lemma handlePut_parent:
  assumes t: "table d = Some t"
    and pf: "PARENT_FIELD cfg \<noteq> ID_FIELD cfg"
    and a: "list_ex (\<lambda>r. rid r = a) t"
    and b: "list_ex (\<lambda>r. rid r = b) t"
  shows "handlePut sn eng cfg d a [(PARENT_FIELD cfg, JNum b)] =
           (Json 200 (fetch_row (d\<lparr>table := Some (set_parent a b t)\<rparr>) a),
            d\<lparr>table := Some (set_parent a b t)\<rparr>)"
proof -
  let ?p = "[(PARENT_FIELD cfg, JNum b)]"
  have cs: "payload_columns cfg ?p = [PARENT_FIELD cfg]"
    using pf by (simp add: payload_columns_def)
  have vs: "normalized_values sn cfg ?p = [JNum b]"
    by (simp add: normalized_values_def cs payload_get_def normalizeIncomingValue_def)
  have rows': "map (\<lambda>r. if rid r = a then r\<lparr>parent_id := as_parent (JNum b)\<rparr> else r) t
      = set_parent a b t"
    by (simp add: set_parent_def as_parent_def)
  have fk: "\<not> list_ex (\<lambda>r. rid r = a \<and> \<not> parent_present (set_parent a b t) r) (set_parent a b t)"
  proof -
    have "parent_present (set_parent a b t) r" if "r \<in> set (set_parent a b t)" "rid r = a" for r
    proof -
      from that have "parent_id r = Some b" by (rule parent_id_set_parent)
      then show ?thesis using b by (simp add: parent_present_def list_ex_rid_set_parent)
    qed
    then show ?thesis by (auto simp: list_ex_iff)
  qed
  have ch: "length (filter (\<lambda>r. rid r = a) t) \<noteq> 0"
    using a by (auto simp: list_ex_iff filter_empty_conv)
  have "sql_update_parent d (JNum b) a =
      Some (length (filter (\<lambda>r. rid r = a) t), d\<lparr>table := Some (set_parent a b t)\<rparr>)"
    using fk by (simp add: sql_update_parent_def t Let_def rows')
  then show ?thesis
    using ch by (simp add: handlePut_def update_with_def run_statement_def cs vs Let_def)
qed






lemma node_path_1: "node_path (Suc 0) = ''/api/nodes/1''"
  by (simp add: node_path_def digits_of.simps [of "Suc 0"] digit_char_def)





lemma closure_exists:
  assumes "b \<in> closure t a" and "list_ex (\<lambda>r. rid r = a) t"
  shows "list_ex (\<lambda>r. rid r = b) t"
proof -
  from assms(1) have "(b, a) \<in> (parent_rel t)\<^sup>*" by (simp add: closure_def)
  then show ?thesis
  proof (cases rule: converse_rtranclE)
    case base
    with assms(2) show ?thesis by simp
  next
    case (step z)
    then show ?thesis by (auto simp: parent_rel_def list_ex_iff)
  qed
qed

text \<open>
  C1. The PUT branch has no cycle check and no status 409. When the parent field is not the
  identity field, \<open>a\<close> is the id of a row and \<open>b\<close> lies in the descendant closure of \<open>a\<close>
  (both at most \<open>2^53 - 1\<close> in absolute value, so that the path and the payload can carry
  them), \<open>PUT /api/nodes/a\<close> with \<open>{parent: b}\<close> answers 200 and the store afterwards has the
  parent of every row \<open>a\<close> set to \<open>b\<close>, all else unchanged: \<open>a\<close> is now its own descendant, and
  \<open>DELETE /api/nodes/a\<close> on that store never answers. (\<open>moveNode\<close> of the client's tree.js
  refuses the same move.)
\<close>

theorem put_into_descendant_accepted:
  assumes "table d = Some t"
    and "PARENT_FIELD cfg \<noteq> ID_FIELD cfg"
    and "a \<le> MAX_SAFE_INTEGER"
    and "list_ex (\<lambda>r. rid r = int a) t"
    and "b \<in> closure t (int a)"
    and "\<bar>b\<bar> \<le> int MAX_SAFE_INTEGER"
  shows "handleApi sn eng cfg d
             \<lparr>http_method = PUT, pathname = node_path a, body = Some [(PARENT_FIELD cfg, JNum b)]\<rparr> =
           Some (Json 200 (fetch_row (d\<lparr>table := Some (set_parent (int a) b t)\<rparr>) (int a)),
                 d\<lparr>table := Some (set_parent (int a) b t)\<rparr>) \<and>
         (int a, int a) \<in> (parent_rel (set_parent (int a) b t))\<^sup>+ \<and>
         handleApi sn eng cfg (d\<lparr>table := Some (set_parent (int a) b t)\<rparr>)
             \<lparr>http_method = DELETE, pathname = node_path a, body = None\<rparr> = None"
proof -
  have "list_ex (\<lambda>r. rid r = b) t"
    using assms(5,4) by (rule closure_exists)
  from handlePut_parent [OF assms(1,2,4) this] set_parent_cycle [OF assms(4,5)]
    delete_after_set_parent [OF assms(4,5)]
  show ?thesis
    by (simp only: handleApi_put [OF assms(3)] handleApi_delete [OF assms(3)])
qed

lemma descendant_scenario: "2 \<in> closure (rows scenario) 1"
proof -
  have "(2, 1) \<in> parent_rel (rows scenario)"
    by (simp add: parent_rel_def scenario_def rows_def)
  then show ?thesis unfolding closure_def by blast
qed

theorem put_into_descendant_accepted_witness:
  "table scenario = Some (rows scenario) \<and>
   PARENT_FIELD default_config \<noteq> ID_FIELD default_config \<and>
   1 \<le> MAX_SAFE_INTEGER \<and>
   list_ex (\<lambda>r. rid r = int 1) (rows scenario) \<and>
   2 \<in> closure (rows scenario) (int 1) \<and>
   \<bar>2\<bar> \<le> int MAX_SAFE_INTEGER \<and>
   handleApi (\<lambda>s. None) no_engine default_config scenario
       \<lparr>http_method = PUT, pathname = ''/api/nodes/1'', body = Some [(''parent_id'', JNum 2)]\<rparr> =
     Some (Json 200 [\<lparr>rid = 1, parent_id = Some 2, cols = [(''name'', JStr ''a'')]\<rparr>], looped) \<and>
   looped \<noteq> scenario \<and>
   handleApi (\<lambda>s. None) no_engine default_config looped
       \<lparr>http_method = DELETE, pathname = ''/api/nodes/1'', body = None\<rparr> = None \<and>
   moveNode (rows scenario) 1 2 = Inl CycleRefused"
proof -
  have h2: "PARENT_FIELD default_config \<noteq> ID_FIELD default_config"
    by (simp add: default_config_def)
  have h3: "1 \<le> MAX_SAFE_INTEGER" by (simp add: MAX_SAFE_INTEGER_def)
  have h4: "list_ex (\<lambda>r. rid r = int 1) (rows scenario)"
    by (simp add: scenario_def rows_def)
  have h5: "2 \<in> closure (rows scenario) (int 1)"
    using descendant_scenario by simp
  have h6: "\<bar>2\<bar> \<le> int MAX_SAFE_INTEGER" by (simp add: MAX_SAFE_INTEGER_def)
  have pf: "PARENT_FIELD default_config = ''parent_id''"
    by (simp add: default_config_def)
  have l: "scenario\<lparr>table := Some (set_parent 1 2 (rows scenario))\<rparr> = looped"
    by (simp add: scenario_def looped_def set_parent_def rows_def)
  have fr: "fetch_row looped 1 = [\<lparr>rid = 1, parent_id = Some 2, cols = [(''name'', JStr ''a'')]\<rparr>]"
    by (simp add: fetch_row_def looped_def rows_def js_row_def to_double_def round_to_53_def)
  have ne: "looped \<noteq> scenario"
    by (simp add: looped_def scenario_def)
  have mv: "moveNode (rows scenario) 1 2 = Inl CycleRefused"
    by (simp add: moveNode_def isDescendant_def getAncestorIds_def scenario_def rows_def)
  from put_into_descendant_accepted [OF table_scenario h2 h3 h4 h5 h6, of "\<lambda>s. None" no_engine]
  have "handleApi (\<lambda>s. None) no_engine default_config scenario
       \<lparr>http_method = PUT, pathname = ''/api/nodes/1'', body = Some [(''parent_id'', JNum 2)]\<rparr> =
     Some (Json 200 [\<lparr>rid = 1, parent_id = Some 2, cols = [(''name'', JStr ''a'')]\<rparr>], looped) \<and>
   handleApi (\<lambda>s. None) no_engine default_config looped
       \<lparr>http_method = DELETE, pathname = ''/api/nodes/1'', body = None\<rparr> = None"
    by (simp add: pf node_path_1 l fr)
  with table_scenario h2 h3 h4 h5 h6 ne mv show ?thesis by blast
qed

subsection \<open>Listing (GET)\<close>




subsection \<open>The two phases of the renumbering script\<close>

lemma map_snd_ranked: "map snd (ranked tool) = sort_key (\<lambda>r. numeric_value (sort_order r)) tool"
  unfolding ranked_def by (rule map_snd_zip) (simp del: upt_Suc)

lemma map_fst_ranked: "map fst (ranked tool) = [1..<Suc (length tool)]"
  unfolding ranked_def by (rule map_fst_zip) (simp del: upt_Suc)

lemma tmp_fst:
  "map fst (tmp_tool_sort tool) = map tid (sort_key (\<lambda>r. numeric_value (sort_order r)) tool)"
proof -
  have "map fst (tmp_tool_sort tool) = map (tid \<circ> snd) (ranked tool)"
    by (simp add: tmp_tool_sort_def case_prod_beta comp_def)
  also have "\<dots> = map tid (map snd (ranked tool))" by simp
  finally show ?thesis by (simp only: map_snd_ranked)
qed

lemma rank_key:
  assumes "n \<le> 1000000"
  shows "int_affinity (sql_mul (sql_sub (SInt (int n)) (SInt 2)) (SInt 1000)) = SInt ((int n - 2) * 1000)"
  using assms by (simp add: sql_mul_def sql_sub_def sql_arith_def in_int64_def int_affinity_def)

lemma tmp_snd:
  assumes "length tool \<le> 1000000"
  shows "map snd (tmp_tool_sort tool) = map (\<lambda>n. SInt ((int n - 2) * 1000)) [1..<Suc (length tool)]"
proof -
  have "map snd (tmp_tool_sort tool) =
      map ((\<lambda>n. int_affinity (sql_mul (sql_sub (SInt (int n)) (SInt 2)) (SInt 1000))) \<circ> fst) (ranked tool)"
    by (simp add: tmp_tool_sort_def case_prod_beta comp_def)
  also have "\<dots> = map (\<lambda>n. int_affinity (sql_mul (sql_sub (SInt (int n)) (SInt 2)) (SInt 1000)))
      (map fst (ranked tool))" by simp
  also have "\<dots> = map (\<lambda>n. int_affinity (sql_mul (sql_sub (SInt (int n)) (SInt 2)) (SInt 1000)))
      [1..<Suc (length tool)]" by (simp only: map_fst_ranked)
  also have "\<dots> = map (\<lambda>n. SInt ((int n - 2) * 1000)) [1..<Suc (length tool)]"
    using assms by (intro map_cong refl rank_key) (simp del: upt_Suc)
  finally show ?thesis .
qed

lemma distinct_tmp_snd:
  assumes "length tool \<le> 1000000"
  shows "distinct (map snd (tmp_tool_sort tool))"
  unfolding tmp_snd [OF assms] by (simp add: distinct_map inj_on_def del: upt_Suc)

lemma distinct_tmp_fst: "distinct (map tid tool) \<Longrightarrow> distinct (map fst (tmp_tool_sort tool))"
proof -
  assume d: "distinct (map tid tool)"
  have "mset (map tid (sort_key (\<lambda>r. numeric_value (sort_order r)) tool)) = mset (map tid tool)"
    by simp
  then show ?thesis unfolding tmp_fst using d by (metis mset_eq_imp_distinct_iff)
qed

lemma tmp_ids: "fst ` set (tmp_tool_sort tool) = tid ` set tool"
proof -
  have "set (map fst (tmp_tool_sort tool)) =
      set (map tid (sort_key (\<lambda>r. numeric_value (sort_order r)) tool))"
    by (simp only: tmp_fst)
  then show ?thesis by simp
qed

lemma tmp_entry:
  assumes "length tool \<le> 1000000" and "(i, k) \<in> set (tmp_tool_sort tool)"
  shows "\<exists>n. 1 \<le> n \<and> n \<le> length tool \<and> k = SInt ((int n - 2) * 1000)"
proof -
  from assms(2) have "k \<in> set (map snd (tmp_tool_sort tool))" by force
  then show ?thesis unfolding tmp_snd [OF assms(1)] by (auto simp del: upt_Suc)
qed

lemma map_of_tmp:
  assumes "length tool \<le> 1000000" and "r \<in> set tool"
  shows "map_of (tmp_tool_sort tool) (tid r) = Some (SInt (new_key tool (tid r)))"
proof -
  have "tid r \<in> fst ` set (tmp_tool_sort tool)" using assms(2) tmp_ids by blast
  then obtain k where k: "map_of (tmp_tool_sort tool) (tid r) = Some k"
    by (metis map_of_eq_None_iff not_Some_eq)
  then have "(tid r, k) \<in> set (tmp_tool_sort tool)" by (rule map_of_SomeD)
  from tmp_entry [OF assms(1) this] obtain x where "k = SInt x" by blast
  with k show ?thesis by (simp add: new_key_def numeric_value_def)
qed

lemma new_key_rank:
  assumes "length tool \<le> 1000000" and "r \<in> set tool"
  shows "\<exists>n. 1 \<le> n \<and> n \<le> length tool \<and> new_key tool (tid r) = (int n - 2) * 1000"
proof -
  have "(tid r, SInt (new_key tool (tid r))) \<in> set (tmp_tool_sort tool)"
    using map_of_tmp [OF assms] by (auto dest: map_of_SomeD)
  from tmp_entry [OF assms(1) this] show ?thesis by simp
qed

lemma new_key_bound:
  assumes "length tool \<le> 1000000" and "r \<in> set tool"
  shows "\<bar>new_key tool (tid r)\<bar> \<le> 1000000000"
proof -
  from new_key_rank [OF assms] obtain n where "1 \<le> n" "n \<le> length tool"
    "new_key tool (tid r) = (int n - 2) * 1000" by blast
  with assms(1) show ?thesis by simp
qed

lemma in_int64_iff: "in_int64 x \<longleftrightarrow> - 9223372036854775808 \<le> x \<and> x < 9223372036854775808"
  by (simp add: in_int64_def)

lemma those_map_Some: "those (map Some xs) = Some xs"
  by (induction xs) simp_all

lemma foldl_sql_max: "foldl sql_max (SInt a) (map SInt bs) = SInt (foldl max a bs)"
  by (induction bs arbitrary: a) (auto simp: sql_max_def numeric_value_def max_def)

lemma foldl_max_Max: "foldl max a bs = Max (set (a # bs))"
proof (induction bs arbitrary: a)
  case Nil
  show ?case by simp
next
  case (Cons b bs)
  have "foldl max a (b # bs) = Max (set (max a b # bs))" by (simp add: Cons.IH)
  also have "\<dots> = Max (insert (max a b) (set bs))" by simp
  also have "\<dots> = Max (insert a (insert b (set bs)))"
    by (cases "set bs = {}") (simp_all add: max.assoc)
  finally show ?case by simp
qed

lemma base_width_ints:
  fixes ks :: "int list"
  assumes tmp: "map snd (sort_key fst tmp) = map SInt ks"
    and small: "\<forall>k \<in> set ks. \<bar>k\<bar> \<le> 1000000000"
  shows "base_width tmp = Some (SInt (Max (insert 0 (abs ` set ks)) + 1000))"
proof -
  have "map (\<lambda>(i, new_sort_order). sql_abs new_sort_order) (sort_key fst tmp) =
      map sql_abs (map snd (sort_key fst tmp))"
    by (simp add: case_prod_beta comp_def)
  also have "\<dots> = map sql_abs (map SInt ks)" by (simp only: tmp)
  also have "\<dots> = map Some (map SInt (map abs ks))"
    using small by (auto simp: sql_abs_def)
  finally have t: "those (map (\<lambda>(i, new_sort_order). sql_abs new_sort_order) (sort_key fst tmp)) =
      Some (map SInt (map abs ks))"
    by (simp only: those_map_Some)
  show ?thesis
  proof (cases ks)
    case Nil
    then show ?thesis
      by (simp add: base_width_def t sql_add_def sql_arith_def in_int64_def)
  next
    case (Cons k ks')
    let ?M = "Max (set (\<bar>k\<bar> # map abs ks'))"
    have m: "?M \<in> set (\<bar>k\<bar> # map abs ks')" by (rule Max_in) simp_all
    then have lo: "0 \<le> ?M" by auto
    from m small Cons have hi: "?M \<le> 1000000000" by auto
    have r: "in_int64 (?M + 1000)" unfolding in_int64_iff using lo hi by linarith
    have "Max (insert 0 (abs ` set ks)) = ?M"
    proof -
      have b: "abs ` set ks = set (\<bar>k\<bar> # map abs ks')" using Cons by simp
      have a: "Max (insert 0 (set (\<bar>k\<bar> # map abs ks'))) = max 0 ?M"
        by (intro Max_insert) simp_all
      show ?thesis unfolding b a using lo by (rule max_absorb2)
    qed
    moreover have f: "foldl sql_max (SInt \<bar>k\<bar>) (map (SInt \<circ> abs) ks') = SInt ?M"
      using foldl_sql_max [of "\<bar>k\<bar>" "map abs ks'"] by (simp add: foldl_max_Max)
    have "base_width tmp = Some (SInt (?M + 1000))"
      using r by (simp add: base_width_def t Cons f sql_add_def sql_arith_def)
    ultimately show ?thesis by simp
  qed
qed

lemma sorted_tmp_snd:
  assumes "length tool \<le> 1000000"
  shows "\<exists>ks. map snd (sort_key fst (tmp_tool_sort tool)) = map SInt ks \<and>
           set ks = (\<lambda>n. (int n - 2) * 1000) ` {1..length tool}"
proof -
  let ?ks = "map (numeric_value \<circ> snd) (sort_key fst (tmp_tool_sort tool))"
  have e: "SInt (numeric_value (snd p)) = snd p" if "p \<in> set (tmp_tool_sort tool)" for p
  proof -
    from that have "(fst p, snd p) \<in> set (tmp_tool_sort tool)" by simp
    from tmp_entry [OF assms this] show ?thesis by (auto simp: numeric_value_def)
  qed
  have a: "map snd (sort_key fst (tmp_tool_sort tool)) = map SInt ?ks"
    unfolding map_map by (rule map_cong) (simp_all add: e)
  have "set ?ks = numeric_value ` set (map snd (tmp_tool_sort tool))"
    by (simp add: image_image)
  also have "\<dots> = (\<lambda>n. (int n - 2) * 1000) ` {1..length tool}"
    unfolding tmp_snd [OF assms]
    by (simp add: image_image numeric_value_def atLeastLessThanSuc_atLeastAtMost del: upt_Suc)
  finally show ?thesis using a by blast
qed

lemma base_width_tmp:
  assumes "length tool \<le> 1000000"
  shows "base_width (tmp_tool_sort tool) = Some (SInt (width tool))"
    and "\<And>n. 1 \<le> n \<Longrightarrow> n \<le> length tool \<Longrightarrow> \<bar>(int n - 2) * 1000\<bar> + 1000 \<le> width tool"
    and "1000 \<le> width tool" and "width tool \<le> 1000001000"
proof -
  from sorted_tmp_snd [OF assms] obtain ks
    where ks: "map snd (sort_key fst (tmp_tool_sort tool)) = map SInt ks"
      and s: "set ks = (\<lambda>n. (int n - 2) * 1000) ` {1..length tool}" by blast
  have small: "\<forall>k \<in> set ks. \<bar>k\<bar> \<le> 1000000000"
    unfolding s using assms by auto
  let ?S = "insert 0 (abs ` set ks)"
  from base_width_ints [OF ks small]
  have b: "base_width (tmp_tool_sort tool) = Some (SInt (Max ?S + 1000))" .
  then have w: "width tool = Max ?S + 1000" by (simp add: width_def numeric_value_def)
  from b w show "base_width (tmp_tool_sort tool) = Some (SInt (width tool))" by simp
  have f: "finite ?S" by simp
  show "\<bar>(int n - 2) * 1000\<bar> + 1000 \<le> width tool" if "1 \<le> n" "n \<le> length tool" for n
  proof -
    from that have "\<bar>(int n - 2) * 1000\<bar> \<in> ?S" unfolding s by auto
    with f have "\<bar>(int n - 2) * 1000\<bar> \<le> Max ?S" by (rule Max_ge)
    with w show ?thesis by simp
  qed
  have "0 \<le> Max ?S" using f by (intro Max_ge) simp_all
  with w show "1000 \<le> width tool" by simp
  have "Max ?S \<in> ?S" using f by (intro Max_in) simp_all
  with small have "Max ?S \<le> 1000000000" by auto
  with w show "width tool \<le> 1000001000" by simp
qed

lemma width_exceeds_size:
  assumes "length tool \<le> 1000000"
  shows "int (length tool) < width tool"
proof (cases "length tool = 0")
  case True
  with base_width_tmp(3) [OF assms] show ?thesis by simp
next
  case False
  then have "1 \<le> length tool" by arith
  from base_width_tmp(2) [OF assms this order_refl]
  have "\<bar>(int (length tool) - 2) * 1000\<bar> + 1000 \<le> width tool" .
  then have "1000 * int (length tool) - 1000 \<le> width tool" by (simp add: algebra_simps)
  with base_width_tmp(3) [OF assms] show ?thesis by linarith
qed

lemma temporary_key:
  assumes k: "\<bar>k\<bar> \<le> 1000000000" and w: "0 \<le> w" "w \<le> 1000001000"
    and i: "\<bar>i\<bar> \<le> 2 ^ 62"
  shows "int_affinity (sql_neg (sql_add (sql_mul (SInt k) (SInt w)) (SInt i))) = SInt (- (k * w + i))"
proof -
  have "\<bar>k * w\<bar> = \<bar>k\<bar> * w" using w by (simp add: abs_mult)
  also have "\<dots> \<le> 1000000000 * 1000001000"
    using k w by (intro mult_mono) simp_all
  finally have p: "\<bar>k * w\<bar> \<le> 1000001000000000000" by simp
  have i': "\<bar>i\<bar> \<le> 4611686018427387904" using i by simp
  have 1: "in_int64 (k * w)" unfolding in_int64_iff using p by linarith
  have 2: "in_int64 (k * w + i)" "in_int64 (0 - (k * w + i))"
    unfolding in_int64_iff using p i' by linarith+
  from 1 2 show ?thesis
    by (simp add: sql_neg_def sql_add_def sql_sub_def sql_mul_def sql_arith_def int_affinity_def)
qed

lemma phase1_eq:
  assumes len: "length tool \<le> 1000000"
    and ids: "\<forall>r \<in> set tool. \<bar>tid r\<bar> \<le> 2 ^ 62"
  shows "phase1 (tmp_tool_sort tool) tool =
     Some (map (\<lambda>r. r\<lparr>sort_order := SInt (- (new_key tool (tid r) * width tool + tid r))\<rparr>) tool)"
proof -
  have w: "0 \<le> width tool" "width tool \<le> 1000001000"
    using base_width_tmp(3,4) [OF len] by simp_all
  have "(case map_of (tmp_tool_sort tool) (tid r) of
           Some new_sort_order \<Rightarrow>
             r\<lparr>sort_order :=
                 int_affinity (sql_neg (sql_add (sql_mul new_sort_order (SInt (width tool))) (SInt (tid r))))\<rparr>
         | None \<Rightarrow> r) =
        r\<lparr>sort_order := SInt (- (new_key tool (tid r) * width tool + tid r))\<rparr>"
    if "r \<in> set tool" for r
    using that ids by (simp add: map_of_tmp [OF len that] temporary_key [OF new_key_bound [OF len that] w])
  then show ?thesis
    by (simp add: phase1_def base_width_tmp(1) [OF len] cong: map_cong)
qed

lemma phase2_eq:
  assumes len: "length tool \<le> 1000000"
  shows "phase2 (tmp_tool_sort tool) (map (\<lambda>r. r\<lparr>sort_order := f r\<rparr>) tool) =
     map (\<lambda>r. r\<lparr>sort_order := SInt (new_key tool (tid r))\<rparr>) tool"
  unfolding phase2_def map_map
  by (rule map_cong) (simp_all add: map_of_tmp [OF len] int_affinity_def)

lemma new_key_inj:
  assumes len: "length tool \<le> 1000000"
    and d: "distinct (map tid tool)" and r: "r \<in> set tool" and q: "q \<in> set tool"
    and e: "new_key tool (tid r) = new_key tool (tid q)"
  shows "r = q"
proof -
  let ?tmp = "tmp_tool_sort tool"
  have d1: "distinct (map fst ?tmp)" using d by (rule distinct_tmp_fst)
  have "(tid r, SInt (new_key tool (tid r))) \<in> set ?tmp" "(tid q, SInt (new_key tool (tid q))) \<in> set ?tmp"
    using map_of_tmp [OF len r] map_of_tmp [OF len q] by (auto dest: map_of_SomeD)
  with e have "(tid r, SInt (new_key tool (tid q))) \<in> set ?tmp"
    "(tid q, SInt (new_key tool (tid q))) \<in> set ?tmp"
    by simp_all
  then have "tid r = tid q"
    using distinct_tmp_snd [OF len]
    by (metis (no_types, lifting) distinct_map fst_conv inj_onD snd_conv)
  with d r q show ?thesis by (simp add: distinct_map inj_on_def)
qed

lemma distinct_new_keys:
  assumes "length tool \<le> 1000000" and "distinct (map tid tool)"
  shows "distinct (map (\<lambda>r. new_key tool (tid r)) tool)"
proof -
  have "distinct tool" using assms(2) by (simp add: distinct_map)
  moreover have "inj_on (\<lambda>r. new_key tool (tid r)) (set tool)"
    using new_key_inj [OF assms] by (auto simp: inj_on_def)
  ultimately show ?thesis by (simp add: distinct_map)
qed

lemma temporary_keys_distinct:
  assumes len: "length tool \<le> 1000000"
    and d: "distinct (map tid tool)"
    and range: "list_all (\<lambda>r. 0 \<le> tid r \<and> tid r < 1000 * width tool) tool"
  shows "distinct (map (\<lambda>r. - (new_key tool (tid r) * width tool + tid r)) tool)"
proof -
  let ?W = "width tool"
  have "distinct tool" using d by (simp add: distinct_map)
  moreover have "inj_on (\<lambda>r. - (new_key tool (tid r) * ?W + tid r)) (set tool)"
  proof (rule inj_onI)
    fix r q
    assume r: "r \<in> set tool" and q: "q \<in> set tool"
      and e: "- (new_key tool (tid r) * ?W + tid r) = - (new_key tool (tid q) * ?W + tid q)"
    from new_key_rank [OF len r] obtain n where n: "new_key tool (tid r) = (int n - 2) * 1000" by blast
    from new_key_rank [OF len q] obtain m where m: "new_key tool (tid q) = (int m - 2) * 1000" by blast
    have W: "0 < ?W" using base_width_tmp(3) [OF len] by linarith
    have rr: "0 \<le> tid r" "tid r < 1000 * ?W" "0 \<le> tid q" "tid q < 1000 * ?W"
      using range r q by (auto simp: list_all_iff)
    from e n m have eq: "(int n - int m) * (1000 * ?W) = tid q - tid r"
      by (simp add: algebra_simps)
    have "int n = int m"
    proof (rule ccontr)
      assume "int n \<noteq> int m"
      then have "1 \<le> \<bar>int n - int m\<bar>" by linarith
      then have "1 * (1000 * ?W) \<le> \<bar>int n - int m\<bar> * (1000 * ?W)"
        using W by (intro mult_right_mono) auto
      also have "\<dots> = \<bar>(int n - int m) * (1000 * ?W)\<bar>" using W by (simp add: abs_mult)
      also have "\<dots> = \<bar>tid q - tid r\<bar>" by (simp only: eq)
      also have "\<dots> < 1000 * ?W" using rr by linarith
      finally show False by simp
    qed
    with n m have "new_key tool (tid r) = new_key tool (tid q)" by simp
    with len d r q show "r = q" by (rule new_key_inj)
  qed
  ultimately show ?thesis by (simp add: distinct_map)
qed

lemma map_of_fst_snd:
  "distinct (map fst al) \<Longrightarrow> map (\<lambda>i. the (map_of al i)) (map fst al) = map snd al"
  unfolding map_map by (rule map_cong) (auto simp: map_of_is_SomeI)

lemma new_key_by_rank:
  assumes "length tool \<le> 1000000" and "distinct (map tid tool)"
  shows "map (new_key tool) (map tid (sort_key (\<lambda>r. numeric_value (sort_order r)) tool)) =
           map (\<lambda>n. (int n - 2) * 1000) [1..<Suc (length tool)]"
proof -
  have "map (\<lambda>i. the (map_of (tmp_tool_sort tool) i)) (map fst (tmp_tool_sort tool)) =
      map snd (tmp_tool_sort tool)"
    using assms(2) by (intro map_of_fst_snd distinct_tmp_fst)
  then have "map numeric_value (map (\<lambda>i. the (map_of (tmp_tool_sort tool) i)) (map fst (tmp_tool_sort tool))) =
      map numeric_value (map snd (tmp_tool_sort tool))" by simp
  then show ?thesis
    unfolding tmp_fst tmp_snd [OF assms(1)] new_key_def [abs_def]
    by (simp add: comp_def numeric_value_def del: upt_Suc)
qed

text \<open>
  C8 (as amended). For a group of at most a million rows whose ids are pairwise distinct and
  at most \<open>2^62\<close> in absolute value, the script runs in two phases with exact integer keys.
  With \<open>k = (rank - 2) * 1000\<close> the final key of a row, \<open>rank\<close> its position from 1 in the
  order of the current keys, phase 1 gives every row the temporary key \<open>-(k * width + id)\<close>,
  where \<open>width\<close> exceeds the size of the group, and phase 2 gives it \<open>k\<close>: the final keys are
  -1000, 0, 1000, ... and pairwise distinct. The temporary keys are pairwise distinct when
  every id lies in \<open>[0, 1000 * width)\<close>.
\<close>

theorem renumber_two_phase:
  assumes "distinct (map tid tool)"
    and "length tool \<le> 1000000"
    and "\<forall>r \<in> set tool. \<bar>tid r\<bar> \<le> 2 ^ 62"
  shows "phase1 (tmp_tool_sort tool) tool =
           Some (map (\<lambda>r. r\<lparr>sort_order := SInt (- (new_key tool (tid r) * width tool + tid r))\<rparr>) tool) \<and>
         renumber tool = Some (map (\<lambda>r. r\<lparr>sort_order := SInt (new_key tool (tid r))\<rparr>) tool) \<and>
         map (new_key tool) (map tid (sort_key (\<lambda>r. numeric_value (sort_order r)) tool)) =
           map (\<lambda>n. (int n - 2) * 1000) [1..<Suc (length tool)] \<and>
         distinct (map (\<lambda>r. new_key tool (tid r)) tool) \<and>
         int (length tool) < width tool \<and>
         (list_all (\<lambda>r. 0 \<le> tid r \<and> tid r < 1000 * width tool) tool \<longrightarrow>
            distinct (map sort_order (the (phase1 (tmp_tool_sort tool) tool))))"
proof -
  note p1 = phase1_eq [OF assms(2,3)]
  have "list_all (\<lambda>r. in_int64 (tid r)) tool"
    unfolding list_all_iff in_int64_iff
  proof
    fix r
    assume "r \<in> set tool"
    with assms(3) have "\<bar>tid r\<bar> \<le> 2 ^ 62" by blast
    then have "\<bar>tid r\<bar> \<le> 4611686018427387904" by simp
    then show "- 9223372036854775808 \<le> tid r \<and> tid r < 9223372036854775808" by linarith
  qed
  then have r: "renumber tool = Some (map (\<lambda>r. r\<lparr>sort_order := SInt (new_key tool (tid r))\<rparr>) tool)"
    using assms(1) by (simp add: renumber_def p1 phase2_eq [OF assms(2)])
  have d: "distinct (map sort_order (the (phase1 (tmp_tool_sort tool) tool)))"
    if "list_all (\<lambda>r. 0 \<le> tid r \<and> tid r < 1000 * width tool) tool"
  proof -
    from temporary_keys_distinct [OF assms(2,1) that]
    have "distinct (map SInt (map (\<lambda>r. - (new_key tool (tid r) * width tool + tid r)) tool))"
      by (simp only: distinct_map) (simp add: inj_on_def)
    then show ?thesis by (simp add: p1 comp_def)
  qed
  from p1 r new_key_by_rank [OF assms(2,1)] distinct_new_keys [OF assms(2,1)]
    width_exceeds_size [OF assms(2)] d
  show ?thesis by blast
qed

lemma renumber_group_b:
  "renumber group_b =
     Some [\<lparr>tid = 1, sort_order = SInt (- 1000)\<rparr>, \<lparr>tid = 2, sort_order = SInt 1000\<rparr>,
           \<lparr>tid = 3, sort_order = SInt 0\<rparr>]"
  by (simp add: renumber_def phase1_def phase2_def base_width_def tmp_tool_sort_def ranked_def
      group_b_def sql_mul_def sql_sub_def sql_add_def sql_neg_def sql_arith_def sql_abs_def
      sql_max_def int_affinity_def in_int64_def numeric_value_def)

lemma width_group_b: "width group_b = 2000"
  by (simp add: width_def base_width_def tmp_tool_sort_def ranked_def group_b_def
      sql_mul_def sql_sub_def sql_add_def sql_arith_def sql_abs_def sql_max_def int_affinity_def
      in_int64_def numeric_value_def)

theorem renumber_two_phase_witness:
  "distinct (map tid group_b) \<and>
   length group_b \<le> 1000000 \<and>
   list_all (\<lambda>r. \<bar>tid r\<bar> \<le> 2 ^ 62) group_b \<and>
   list_all (\<lambda>r. 0 \<le> tid r \<and> tid r < 1000 * width group_b) group_b \<and>
   renumber group_b = Some (map (\<lambda>r. r\<lparr>sort_order := SInt (new_key group_b (tid r))\<rparr>) group_b) \<and>
   renumber group_b =
     Some [\<lparr>tid = 1, sort_order = SInt (- 1000)\<rparr>, \<lparr>tid = 2, sort_order = SInt 1000\<rparr>,
           \<lparr>tid = 3, sort_order = SInt 0\<rparr>] \<and>
   int (length group_b) < width group_b \<and>
   distinct (map sort_order (the (phase1 (tmp_tool_sort group_b) group_b)))"
proof -
  have d: "distinct (map tid group_b)" by (simp add: group_b_def)
  have l: "length group_b \<le> 1000000" by (simp add: group_b_def)
  have i: "\<forall>r \<in> set group_b. \<bar>tid r\<bar> \<le> 2 ^ 62" by (simp add: group_b_def)
  have r: "list_all (\<lambda>r. 0 \<le> tid r \<and> tid r < 1000 * width group_b) group_b"
    unfolding width_group_b by (simp add: group_b_def)
  from i have i': "list_all (\<lambda>r. \<bar>tid r\<bar> \<le> 2 ^ 62) group_b" by (simp only: list_all_iff)
  from renumber_two_phase [OF d l i] d l i' r renumber_group_b show ?thesis by blast
qed

text \<open>
  C8 (as stated) fails. In the group with ids 1, 2, 3 the temporary key of the first
  row is 1999999, not negative, and the final keys are -1000, 1000 and 0, not all positive.
  In the group with ids 2000001 and 1 both temporary keys are -1. In the group whose third
  row has the id \<open>2^63 - 1\<close> the temporary key of that row is no integer but the REAL
  \<open>-9223372036856776704\<close>.
\<close>

theorem renumber_keys_counterexample:
  "map_option (map sort_order) (phase1 (tmp_tool_sort group_b) group_b) =
     Some [SInt 1999999, SInt (- 2000002), SInt (- 3)] \<and>
   map_option (map sort_order) (renumber group_b) = Some [SInt (- 1000), SInt 1000, SInt 0] \<and>
   map_option (list_all (\<lambda>r. 0 < numeric_value (sort_order r))) (renumber group_b) = Some False \<and>
   distinct (map tid group_a) \<and>
   map_option (map sort_order) (phase1 (tmp_tool_sort group_a) group_a) = Some [SInt (- 1), SInt (- 1)] \<and>
   distinct (map tid group_c) \<and>
   map_option (map sort_order) (phase1 (tmp_tool_sort group_c) group_c) =
     Some [SInt 1999999, SInt (- 2), SReal (- 9223372036856776704)]"
proof -
  have b: "map_option (map sort_order) (phase1 (tmp_tool_sort group_b) group_b) =
     Some [SInt 1999999, SInt (- 2000002), SInt (- 3)]"
    by (simp add: phase1_def base_width_def tmp_tool_sort_def ranked_def
      group_b_def sql_mul_def sql_sub_def sql_add_def sql_neg_def sql_arith_def sql_abs_def
      sql_max_def int_affinity_def in_int64_def numeric_value_def)
  have b2: "map_option (map sort_order) (renumber group_b) = Some [SInt (- 1000), SInt 1000, SInt 0]"
    "map_option (list_all (\<lambda>r. 0 < numeric_value (sort_order r))) (renumber group_b) = Some False"
    by (simp_all add: renumber_group_b numeric_value_def)
  have a: "distinct (map tid group_a)"
    "map_option (map sort_order) (phase1 (tmp_tool_sort group_a) group_a) = Some [SInt (- 1), SInt (- 1)]"
    by (simp_all add: phase1_def base_width_def tmp_tool_sort_def ranked_def
      group_a_def sql_mul_def sql_sub_def sql_add_def sql_neg_def sql_arith_def sql_abs_def
      sql_max_def int_affinity_def in_int64_def numeric_value_def)
  have bl: "bitlen 9223372036854775807 = 63" "bitlen 9223372036856775808 = 64"
    "bitlen 9223372036856776704 = 64"
    by (simp_all add: bitlen.simps)
  have td: "to_double 2000000 = 2000000" "to_double 9223372036854775807 = 9223372036854775808"
    "to_double 9223372036856775808 = 9223372036856776704" "to_double 0 = 0"
    "to_double (- 9223372036856776704) = - 9223372036856776704"
    by (simp_all add: to_double_def round_to_53_def bl Let_def)
  have c: "distinct (map tid group_c)"
    "map_option (map sort_order) (phase1 (tmp_tool_sort group_c) group_c) =
     Some [SInt 1999999, SInt (- 2), SReal (- 9223372036856776704)]"
    by (simp_all add: phase1_def base_width_def tmp_tool_sort_def ranked_def
      group_c_def sql_mul_def sql_sub_def sql_add_def sql_neg_def sql_arith_def sql_abs_def
      sql_max_def int_affinity_def in_int64_def numeric_value_def as_real_def td)
  from b b2 a c show ?thesis by blast
qed

subsection \<open>The configuration change of the client\<close>

lemma create_session_trace:
  "\<exists>tail. fst (create_session e cfg) = cleanupConflictingSessions e cfg @ PostSession # tail"
  by (auto simp: create_session_def Let_def split: option.splits)

lemma applyConfig_trace:
  assumes "truthy (stored_session e) = None"
  shows "\<exists>tail. fst (applyConfig e cfg) = cleanupConflictingSessions e cfg @ PostSession # tail"
proof -
  from create_session_trace [of e cfg] obtain tail
    where t: "fst (create_session e cfg) = cleanupConflictingSessions e cfg @ PostSession # tail"
    by blast
  obtain evs res where c: "create_session e cfg = (evs, res)" by (cases "create_session e cfg")
  with t have evs: "evs = cleanupConflictingSessions e cfg @ PostSession # tail" by simp
  show ?thesis
  proof (cases res)
    case (Inl failure)
    with assms c evs show ?thesis by (simp add: applyConfig_def)
  next
    case (Inr sessionId)
    obtain evs' r where u: "update_config e sessionId = (evs', r)" by (cases "update_config e sessionId")
    with assms c evs Inr have "fst (applyConfig e cfg) =
        cleanupConflictingSessions e cfg @ PostSession # (tail @ evs')"
      by (simp add: applyConfig_def)
    then show ?thesis by blast
  qed
qed

text \<open>
  C3. The flow of \<open>applyConfig\<close> does not keep the three steps. Whenever no session id is
  stored and the server's list holds a session on the same database path and table, live or
  not, \<open>cleanupConflictingSessions\<close> sends the DELETE for that session before the plain POST
  and before any \<open>confirm\<close> dialog. (With a stored session, a 409 from \<open>POST /api/config\<close> is
  answered with a forced PUT, again without a dialog: see the second run of the witness.)
\<close>

theorem applyConfig_deletes_before_asking:
  assumes "truthy (stored_session e) = None"
    and "sessions_reply e = Some listed"
    and "s \<in> set listed"
    and "same_resource cfg s"
  shows "\<exists>pre post. fst (applyConfig e cfg) = pre @ DeleteSession (sid s) # post \<and>
           Confirm \<notin> set pre \<and> PostSession \<notin> set pre"
proof -
  let ?hit = "filter (\<lambda>s. isExpired e s \<or> same_resource cfg s) listed"
  have "s \<in> set ?hit" using assms(3,4) by simp
  then obtain ys zs where h: "?hit = ys @ s # zs" by (auto simp: in_set_conv_decomp)
  from applyConfig_trace [OF assms(1), of cfg] obtain tail
    where "fst (applyConfig e cfg) = cleanupConflictingSessions e cfg @ PostSession # tail" by blast
  then have "fst (applyConfig e cfg) =
      (GetSessions # map (\<lambda>s. DeleteSession (sid s)) ys) @ DeleteSession (sid s) #
        (map (\<lambda>s. DeleteSession (sid s)) zs @ PostSession # tail)"
    using assms(2) h by (simp add: cleanupConflictingSessions_def)
  moreover have "Confirm \<notin> set (GetSessions # map (\<lambda>s. DeleteSession (sid s)) ys)"
    "PostSession \<notin> set (GetSessions # map (\<lambda>s. DeleteSession (sid s)) ys)"
    by auto
  ultimately show ?thesis by blast
qed

theorem applyConfig_deletes_before_asking_witness:
  "truthy (stored_session second_tab) = None \<and> sessions_reply second_tab = Some [other_tab] \<and>
   other_tab \<in> set [other_tab] \<and> same_resource form0 other_tab \<and>
   \<not> isExpired second_tab other_tab \<and>
   (\<exists>pre post. fst (applyConfig second_tab form0) = pre @ DeleteSession (sid other_tab) # post \<and>
      Confirm \<notin> set pre \<and> PostSession \<notin> set pre) \<and>
   applyConfig second_tab form0 =
     ([GetSessions, DeleteSession ''other-tab'', PostSession, PostConfig ''mine''], Applied) \<and>
   applyConfig config_conflict form0 = ([PostConfig ''mine'', PutForce (Sid ''mine'')], Applied)"
proof -
  have a: "truthy (stored_session second_tab) = None" by (simp add: truthy_def second_tab_def)
  have b: "sessions_reply second_tab = Some [other_tab]" by (simp add: second_tab_def)
  have c: "other_tab \<in> set [other_tab]" by simp
  have d: "same_resource form0 other_tab" by (simp add: same_resource_def other_tab_def)
  have e: "\<not> isExpired second_tab other_tab" by (simp add: isExpired_def second_tab_def other_tab_def)
  have v: "applyConfig second_tab form0 =
     ([GetSessions, DeleteSession ''other-tab'', PostSession, PostConfig ''mine''], Applied)"
    "applyConfig config_conflict form0 = ([PostConfig ''mine'', PutForce (Sid ''mine'')], Applied)"
    by (simp_all add: applyConfig_def create_session_def update_config_def cleanupConflictingSessions_def
      isExpired_def same_resource_def truthy_def response_ok_def second_tab_def config_conflict_def
      other_tab_def form0_def)
  from applyConfig_deletes_before_asking [OF a b c d] a b c d e v show ?thesis by blast
qed

subsection \<open>Exclusive sessions\<close>

lemma registry_ok_sweep: "registry_ok reg \<Longrightarrow> registry_ok (sweep now reg)"
  by (auto simp: registry_ok_def sweep_def distinct_map_filter list_all_iff)

lemma registry_ok_revoke: "registry_ok reg \<Longrightarrow> registry_ok (revoke i reg)"
  by (auto simp: registry_ok_def revoke_def distinct_map_filter list_all_iff)

lemma registry_ok_touch: "registry_ok reg \<Longrightarrow> registry_ok (snd (touch now i reg))"
proof -
  have e: "resourceKey \<circ> (\<lambda>s. if sessionId s = i then s\<lparr>lastAccessAt := now\<rparr> else s) = resourceKey"
    by (auto simp: fun_eq_iff)
  show "registry_ok reg \<Longrightarrow> registry_ok (snd (touch now i reg))"
    by (auto simp: registry_ok_def touch_def list_all_iff e)
qed

lemma registry_ok_authorize: "registry_ok reg \<Longrightarrow> registry_ok (snd (authorize now i reg))"
  using registry_ok_touch [of reg now i]
  by (auto simp: authorize_def split: option.splits)

lemma find_holder_None: "find_holder reg key = None \<longleftrightarrow> key \<notin> resourceKey ` set (sessions reg)"
  by (auto simp: find_holder_def find_None_iff)

lemma find_holder_Some:
  "find_holder reg key = Some h \<Longrightarrow> h \<in> set (sessions reg) \<and> resourceKey h = key"
  by (auto simp: find_holder_def find_Some_iff)

lemma registry_ok_new_session:
  assumes "registry_ok reg" and "find_holder reg key = None"
  shows "registry_ok (snd (new_session now key cfg reg))"
  using assms
  by (auto simp: registry_ok_def new_session_def find_holder_None Let_def list_all_iff less_Suc_eq)

lemma revoke_holder_frees:
  assumes ok: "registry_ok reg" and h: "find_holder reg key = Some h"
  shows "find_holder (revoke (sessionId h) reg) key = None"
proof -
  from find_holder_Some [OF h] have hin: "h \<in> set (sessions reg)" and hk: "resourceKey h = key" by auto
  have "s = h" if "s \<in> set (sessions reg)" "resourceKey s = key" for s
    using that hin hk ok by (auto simp: registry_ok_def distinct_map inj_on_def)
  then show ?thesis
    by (auto simp: find_holder_None revoke_def)
qed

lemma registry_ok_create:
  assumes "registry_ok reg"
  shows "registry_ok (snd (create now key cfg force reg))"
proof -
  have ok1: "registry_ok (sweep now reg)" using assms by (rule registry_ok_sweep)
  show ?thesis
  proof (cases "find_holder (sweep now reg) key")
    case None
    with ok1 show ?thesis by (simp add: create_def registry_ok_new_session)
  next
    case (Some h)
    show ?thesis
    proof (cases force)
      case True
      have "registry_ok (revoke (sessionId h) (sweep now reg))" using ok1 by (rule registry_ok_revoke)
      moreover have "find_holder (revoke (sessionId h) (sweep now reg)) key = None"
        using ok1 Some by (rule revoke_holder_frees)
      ultimately show ?thesis using Some True by (simp add: create_def registry_ok_new_session)
    next
      case False
      with Some ok1 show ?thesis by (simp add: create_def)
    qed
  qed
qed

lemma find_holder_unique:
  assumes ok: "registry_ok reg" and s: "s \<in> set (sessions reg)"
  shows "find_holder reg (resourceKey s) = Some s"
proof -
  have "find_holder reg (resourceKey s) \<noteq> None"
    using s by (simp add: find_holder_None)
  then obtain h where h: "find_holder reg (resourceKey s) = Some h" by blast
  from find_holder_Some [OF h] have "h \<in> set (sessions reg)" "resourceKey h = resourceKey s" by auto
  with ok s have "h = s" by (auto simp: registry_ok_def distinct_map inj_on_def)
  with h show ?thesis by simp
qed

lemma create_first:
  assumes "create t1 R cfg1 False reg = (Inr s1, reg1)"
  shows "s1 = \<lparr>sessionId = next_token reg, resourceKey = R, createdAt = t1,
                lastAccessAt = t1, session_config = cfg1\<rparr> \<and>
         reg1 = (sweep t1 reg)\<lparr>sessions := sessions (sweep t1 reg) @ [s1],
                                next_token := Suc (next_token reg)\<rparr>"
  using assms
  by (auto simp: create_def new_session_def Let_def sweep_def split: option.splits)

text \<open>
  C2. Let the registry satisfy its invariant, let a plain \<open>create\<close> for resource \<open>R\<close>
  succeed with session \<open>s1\<close>, and let a second \<open>create\<close> for \<open>R\<close> follow before \<open>s1\<close>
  expires. Then \<open>s1\<close> is the holder of \<open>R\<close>; the second call without force fails with
  \<open>ConflictError\<close> carrying the id of \<open>s1\<close>; with force it succeeds with a new session that
  is then the holder, and from then on \<open>authorize\<close> of the id of \<open>s1\<close> fails. Every operation
  of the registry keeps the invariant, so no resource key ever has two holders.
\<close>

theorem session_exclusivity:
  assumes ok: "registry_ok reg"
    and first: "create t1 R cfg1 False reg = (Inr s1, reg1)"
    and live: "t2 - t1 \<le> idle_timeout"
  shows "registry_ok reg1 \<and> find_holder reg1 R = Some s1 \<and>
         create t2 R cfg2 False reg1 = (Inl (ConflictError (sessionId s1)), sweep t2 reg1) \<and>
         (\<exists>s2 reg2. create t2 R cfg2 True reg1 = (Inr s2, reg2) \<and> sessionId s2 \<noteq> sessionId s1 \<and>
            registry_ok reg2 \<and> find_holder reg2 R = Some s2 \<and>
            (\<forall>t3. fst (authorize t3 (sessionId s1) reg2) = Inl ExpiredError)) \<and>
         registry_ok (snd (create t k c f reg)) \<and> registry_ok (revoke i reg) \<and>
         registry_ok (sweep t reg) \<and> registry_ok (snd (authorize t i reg))"
proof -
  from create_first [OF first]
  have s1: "s1 = \<lparr>sessionId = next_token reg, resourceKey = R, createdAt = t1,
                lastAccessAt = t1, session_config = cfg1\<rparr>"
    and reg1: "reg1 = (sweep t1 reg)\<lparr>sessions := sessions (sweep t1 reg) @ [s1],
                                next_token := Suc (next_token reg)\<rparr>"
    by auto
  have ok1: "registry_ok reg1"
    using registry_ok_create [OF ok, of t1 R cfg1 False] first by simp
  have in1: "s1 \<in> set (sessions reg1)" by (subst reg1) simp
  have key1: "resourceKey s1 = R" and id1: "sessionId s1 = next_token reg" and la1: "lastAccessAt s1 = t1"
    by (simp_all add: s1)
  have nt1: "next_token reg1 = Suc (next_token reg)" by (subst reg1) (simp add: sweep_def)
  have h1: "find_holder reg1 R = Some s1"
    using find_holder_unique [OF ok1 in1] key1 by simp
  \<comment> \<open>the second call, at a time when the first session has not expired\<close>
  let ?sw = "sweep t2 reg1"
  have oksw: "registry_ok ?sw" using ok1 by (rule registry_ok_sweep)
  have "\<not> expired t2 s1" using live la1 by (simp add: expired_def)
  with in1 have insw: "s1 \<in> set (sessions ?sw)" by (simp add: sweep_def)
  have hsw: "find_holder ?sw R = Some s1"
    using find_holder_unique [OF oksw insw] key1 by simp
  have conflict: "create t2 R cfg2 False reg1 = (Inl (ConflictError (sessionId s1)), ?sw)"
    using hsw by (simp add: create_def)
  \<comment> \<open>the forced call\<close>
  let ?rv = "revoke (sessionId s1) ?sw"
  let ?s2 = "\<lparr>sessionId = next_token ?rv, resourceKey = R, createdAt = t2,
                lastAccessAt = t2, session_config = cfg2\<rparr>"
  let ?reg2 = "?rv\<lparr>sessions := sessions ?rv @ [?s2], next_token := Suc (next_token ?rv)\<rparr>"
  have forced: "create t2 R cfg2 True reg1 = (Inr ?s2, ?reg2)"
    using hsw by (simp add: create_def new_session_def Let_def)
  have ntrv: "next_token ?rv = Suc (next_token reg)"
    using nt1 by (simp add: revoke_def sweep_def)
  have ids: "sessionId ?s2 \<noteq> sessionId s1" using ntrv id1 by simp
  have ok2: "registry_ok ?reg2"
    using registry_ok_create [OF ok1, of t2 R cfg2 True] forced by simp
  have h2: "find_holder ?reg2 R = Some ?s2"
    using find_holder_unique [OF ok2, of ?s2] by simp
  have gone: "fst (authorize t3 (sessionId s1) ?reg2) = Inl ExpiredError" for t3
  proof -
    have "find (\<lambda>s. sessionId s = sessionId s1) (sessions ?reg2) = None"
      using ids by (auto simp: find_None_iff revoke_def)
    then show ?thesis by (simp add: authorize_def)
  qed
  from forced ids ok2 h2 gone
  have ex: "\<exists>s2 reg2. create t2 R cfg2 True reg1 = (Inr s2, reg2) \<and> sessionId s2 \<noteq> sessionId s1 \<and>
            registry_ok reg2 \<and> find_holder reg2 R = Some s2 \<and>
            (\<forall>t3. fst (authorize t3 (sessionId s1) reg2) = Inl ExpiredError)"
    by blast
  from ok1 h1 conflict ex registry_ok_create [OF ok] registry_ok_revoke [OF ok]
    registry_ok_sweep [OF ok] registry_ok_authorize [OF ok]
  show ?thesis by blast
qed

lemma registry_ok_empty: "registry_ok empty_registry"
  by (simp add: registry_ok_def empty_registry_def)

lemma create_first_session:
  "create 0 ''data/treedb.sqlite|tree_nodes'' ''first'' False empty_registry =
     (Inr first_session, \<lparr>sessions = [first_session], next_token = 1\<rparr>)"
  by (simp add: create_def sweep_def find_holder_def new_session_def empty_registry_def
      first_session_def Let_def)

theorem session_exclusivity_witness:
  "registry_ok empty_registry \<and>
   create 0 ''data/treedb.sqlite|tree_nodes'' ''first'' False empty_registry =
     (Inr first_session, \<lparr>sessions = [first_session], next_token = 1\<rparr>) \<and>
   60 - 0 \<le> idle_timeout \<and>
   create 60 ''data/treedb.sqlite|tree_nodes'' ''second'' False \<lparr>sessions = [first_session], next_token = 1\<rparr> =
     (Inl (ConflictError 0), \<lparr>sessions = [first_session], next_token = 1\<rparr>) \<and>
   (\<exists>s2 reg2. create 60 ''data/treedb.sqlite|tree_nodes'' ''second'' True \<lparr>sessions = [first_session], next_token = 1\<rparr> =
       (Inr s2, reg2) \<and> sessionId s2 \<noteq> 0 \<and> find_holder reg2 ''data/treedb.sqlite|tree_nodes'' = Some s2 \<and>
       fst (authorize 61 0 reg2) = Inl ExpiredError)"
proof -
  have live: "(60::int) - 0 \<le> idle_timeout" by (simp add: idle_timeout_def)
  have sw: "sweep 60 \<lparr>sessions = [first_session], next_token = 1\<rparr> = \<lparr>sessions = [first_session], next_token = 1\<rparr>"
    by (simp add: sweep_def expired_def idle_timeout_def first_session_def)
  have id0: "sessionId first_session = 0" by (simp add: first_session_def)
  from session_exclusivity [OF registry_ok_empty create_first_session live, of "''second''"]
  have "create 60 ''data/treedb.sqlite|tree_nodes'' ''second'' False \<lparr>sessions = [first_session], next_token = 1\<rparr> =
     (Inl (ConflictError 0), \<lparr>sessions = [first_session], next_token = 1\<rparr>)"
    and "\<exists>s2 reg2. create 60 ''data/treedb.sqlite|tree_nodes'' ''second'' True \<lparr>sessions = [first_session], next_token = 1\<rparr> =
       (Inr s2, reg2) \<and> sessionId s2 \<noteq> 0 \<and> find_holder reg2 ''data/treedb.sqlite|tree_nodes'' = Some s2 \<and>
       fst (authorize 61 0 reg2) = Inl ExpiredError"
    unfolding sw id0 by blast+
  with registry_ok_empty create_first_session live show ?thesis by blast
qed


end
